theory Spec2Isabelle
  imports Main "HOL-Library.Word"
begin

section \<open>Machine types\<close>

text \<open>
  \<open>uint64_t\<close>, \<open>size_t\<close> and pointers reinterpreted as \<open>uint64_t\<close> are 64-bit words
  (the platform is LP64); \<open>nullptr\<close> is the word 0. The C \<open>int\<close> values of this code
  (status codes, counts, task identifiers, argument types) are only compared, never
  pushed to overflow, and are modelled by \<open>int\<close>.
\<close>

type_synonym u64 = "64 word"

definition nullptr :: u64 where
  "nullptr = 0"

section \<open>function\_cache.h: CoreFunctionBinCache\<close>

text \<open>
  The cache is a header of two \<open>uint64_t\<close> fields followed in memory by the offset
  table and the kernel binaries. \<open>this\<close> is the address of the header and \<open>mem\<close>
  the 64-bit load from an address.
\<close>

record CoreFunctionBinCache =
  dataSize :: u64
  numKernels :: u64

definition sizeof_CoreFunctionBinCache :: u64 where
  "sizeof_CoreFunctionBinCache = 16"

definition sizeof_uint64_t :: u64 where
  "sizeof_uint64_t = 8"

definition GetOffsets :: "u64 \<Rightarrow> u64" where
  "GetOffsets this = this + sizeof_CoreFunctionBinCache"

definition GetBinaryData :: "u64 \<Rightarrow> CoreFunctionBinCache \<Rightarrow> u64" where
  "GetBinaryData this c = GetOffsets this + numKernels c * sizeof_uint64_t"

text \<open>
  \<open>GetKernel\<close> returns the pointer it computes together with the list of offset-table
  indices it has loaded from (\<open>GetOffsets()[index]\<close>).
\<close>

definition GetKernel :: "(u64 \<Rightarrow> u64) \<Rightarrow> u64 \<Rightarrow> CoreFunctionBinCache \<Rightarrow> u64 \<Rightarrow> u64 \<times> u64 list" where
  "GetKernel mem this c index =
     (if index \<ge> numKernels c then (nullptr, [])
      else (let offset = mem (GetOffsets this + index * sizeof_uint64_t)
            in (GetBinaryData this c + offset, [index])))"

definition GetTotalSize :: "CoreFunctionBinCache \<Rightarrow> u64" where
  "GetTotalSize c = sizeof_CoreFunctionBinCache + numKernels c * sizeof_uint64_t + dataSize c"

section \<open>The Runtime instance\<close>

datatype CoreType = AIC | AIV

text \<open>
  Modelled from the spec: the task record of the graph store (\<open>runtime.h\<close> is not part
  of the sources). A task has a function identifier, its arguments, a core type, a
  publication flag and a completion flag; an edge is membership in the predecessor's
  outgoing set and a counter on the successor.
\<close>

record Task =
  func_id :: int
  args :: "u64 list"
  core_type :: CoreType
  published :: bool
  complete :: bool
  outgoing :: "nat list"
  pending_preds :: nat

record TensorPair =
  host_ptr :: u64
  dev_ptr :: u64
  size_bytes :: u64

record DeviceAlloc =
  alloc_dev_ptr :: u64

text \<open>
  The fields of \<open>Runtime\<close> that the sources read and write, and the graph store
  (\<open>tasks\<close>, addressed by dense identifier).
\<close>

record Runtime =
  tasks :: "Task list"
  orch_args :: "u64 list"
  orch_argc :: int
  kernel_addrs :: "u64 list"
  tensor_pairs :: "TensorPair list"
  device_allocs :: "DeviceAlloc list"
  build_mode :: int
  aicpu_orch_so :: "8 word list"
  aicpu_orch_func_name :: string

text \<open>The compile-time constants of \<open>runtime.h\<close>, taken as parameters.\<close>

record Limits =
  RUNTIME_MAX_ORCH_ARGS :: int
  RUNTIME_MAX_AICPU_ORCH_SO_SIZE :: nat
  RUNTIME_MAX_ORCH_FUNC_NAME :: nat
  RUNTIME_MAX_TASKS :: nat
  RUNTIME_MAX_ARGS :: int

section \<open>Task graph builder API\<close>

definition valid_task :: "Runtime \<Rightarrow> int \<Rightarrow> bool" where
  "valid_task rt t = (0 \<le> t \<and> nat t < length (tasks rt))"

definition has_kernel :: "Runtime \<Rightarrow> int \<Rightarrow> bool" where
  "has_kernel rt f = (0 \<le> f \<and> nat f < length (kernel_addrs rt) \<and> kernel_addrs rt ! nat f \<noteq> 0)"

text \<open>
  Modelled from the spec: \<open>add_task\<close> (its code is not part of the sources). It
  allocates the next dense identifier, copies the arguments by value and records the
  function identifier and the core type; it fails with a negative sentinel when the
  store is at capacity, when \<open>arg_count\<close> exceeds the per-task limit or when the
  function has no registered device address. The new task is unpublished.
\<close>

definition add_task :: "Limits \<Rightarrow> Runtime \<Rightarrow> u64 list \<Rightarrow> int \<Rightarrow> int \<Rightarrow> CoreType \<Rightarrow> u64 \<Rightarrow> int \<times> Runtime" where
  "add_task lim rt as arg_count f core flags =
     (if length (tasks rt) \<ge> RUNTIME_MAX_TASKS lim \<or> arg_count > RUNTIME_MAX_ARGS lim
         \<or> \<not> has_kernel rt f
      then (-1, rt)
      else (int (length (tasks rt)),
            rt\<lparr>tasks := tasks rt @
              [\<lparr>func_id = f, args = take (nat arg_count) as, core_type = core,
                published = False, complete = False, outgoing = [], pending_preds = 0\<rparr>]\<rparr>))"

text \<open>
  Modelled from the spec: \<open>add_successor_conditional\<close> (its code is not part of the
  sources). It fails if either identifier is out of range or if the successor has
  already been published; otherwise it appends the successor to the predecessor's
  outgoing set and increments the successor's pending-predecessor count.
\<close>

definition add_successor_conditional :: "Runtime \<Rightarrow> int \<Rightarrow> int \<Rightarrow> int \<times> Runtime" where
  "add_successor_conditional rt predecessor_id successor_id =
     (if \<not> valid_task rt predecessor_id \<or> \<not> valid_task rt successor_id then (-1, rt)
      else if published (tasks rt ! nat successor_id) then (-1, rt)
      else
        (let p = nat predecessor_id; s = nat successor_id;
             ts1 = (tasks rt)[p := (tasks rt ! p)\<lparr>outgoing := outgoing (tasks rt ! p) @ [s]\<rparr>];
             ts2 = ts1[s := (ts1 ! s)\<lparr>pending_preds := pending_preds (ts1 ! s) + 1\<rparr>]
         in (0, rt\<lparr>tasks := ts2\<rparr>)))"

text \<open>
  Modelled from the spec: \<open>publish_task\<close> (its code is not part of the sources). It
  sets the published flag and fails if the identifier is invalid or the task is already
  published.
\<close>

definition publish_task :: "Runtime \<Rightarrow> int \<Rightarrow> int \<times> Runtime" where
  "publish_task rt task_id =
     (if \<not> valid_task rt task_id then (-1, rt)
      else if published (tasks rt ! nat task_id) then (-1, rt)
      else (0, rt\<lparr>tasks := (tasks rt)[nat task_id :=
                   (tasks rt ! nat task_id)\<lparr>published := True\<rparr>]\<rparr>))"

text \<open>
  Modelled from the spec: dispatch eligibility. After publication a task is eligible for
  dispatch as soon as its pending-predecessor count reaches zero; the dispatch set is
  what a scheduler finds when it scans the store.
\<close>

definition dispatch_eligible :: "Runtime \<Rightarrow> nat \<Rightarrow> bool" where
  "dispatch_eligible rt t =
     (t < length (tasks rt) \<and> published (tasks rt ! t) \<and> pending_preds (tasks rt ! t) = 0)"

definition dispatch_set :: "Runtime \<Rightarrow> nat list" where
  "dispatch_set rt = filter (dispatch_eligible rt) [0..<length (tasks rt)]"

definition predecessors :: "Runtime \<Rightarrow> nat \<Rightarrow> nat list" where
  "predecessors rt t = filter (\<lambda>p. t \<in> set (outgoing (tasks rt ! p))) [0..<length (tasks rt)]"

text \<open>
  Modelled from the spec: completion. The executing core marks a dispatched task complete
  when it finishes, and the completing predecessor decrements the pending-predecessor
  count of each entry of its outgoing set. Only a dispatch-eligible task that is not yet
  complete can complete.
\<close>

definition release_successor :: "Task list \<Rightarrow> nat \<Rightarrow> Task list" where
  "release_successor ts s = ts[s := (ts ! s)\<lparr>pending_preds := pending_preds (ts ! s) - 1\<rparr>]"

definition complete_task :: "Runtime \<Rightarrow> nat \<Rightarrow> Runtime" where
  "complete_task rt t =
     (if dispatch_eligible rt t \<and> \<not> complete (tasks rt ! t)
      then rt\<lparr>tasks := foldl release_successor
                 ((tasks rt)[t := (tasks rt ! t)\<lparr>complete := True\<rparr>])
                 (outgoing (tasks rt ! t))\<rparr>
      else rt)"

text \<open>
  A build sequence is a list of builder calls, run in order on the Runtime; a call that
  fails leaves the Runtime as it was. In sequential build mode the completions follow
  the build.
\<close>

datatype builder_call =
    AddTask "u64 list" int int CoreType u64
  | AddSuccessorConditional int int
  | PublishTask int

fun builder_step :: "Limits \<Rightarrow> Runtime \<Rightarrow> builder_call \<Rightarrow> Runtime" where
  "builder_step lim rt (AddTask as arg_count f core flags) =
     snd (add_task lim rt as arg_count f core flags)"
| "builder_step lim rt (AddSuccessorConditional p s) = snd (add_successor_conditional rt p s)"
| "builder_step lim rt (PublishTask t) = snd (publish_task rt t)"

definition run_builder :: "Limits \<Rightarrow> Runtime \<Rightarrow> builder_call list \<Rightarrow> Runtime" where
  "run_builder lim rt calls = foldl (builder_step lim) rt calls"

definition run_completions :: "Runtime \<Rightarrow> nat list \<Rightarrow> Runtime" where
  "run_completions rt ts = foldl complete_task rt ts"

text \<open>
  The number of incomplete predecessors of \<open>s\<close>, counted with the multiplicity of the
  edges, and the invariant that ties the counter on a successor to it.
\<close>

definition incomplete_preds :: "Task list \<Rightarrow> nat \<Rightarrow> nat" where
  "incomplete_preds ts s =
     sum_list (map (\<lambda>p. if complete p then 0 else count_list (outgoing p) s) ts)"

definition store_inv :: "Task list \<Rightarrow> bool" where
  "store_inv ts =
     ((\<forall>p < length ts. \<forall>s \<in> set (outgoing (ts ! p)). s < length ts)
      \<and> (\<forall>s < length ts. pending_preds (ts ! s) = incomplete_preds ts s))"

text \<open>
  A freshly constructed Runtime with the given table of kernel addresses, and a set of
  limits, for the concrete runs below.
\<close>

definition fresh_runtime :: "u64 list \<Rightarrow> Runtime" where
  "fresh_runtime ks =
     \<lparr>tasks = [], orch_args = [0, 0, 0, 0, 0, 0, 0, 0, 0, 0, 0, 0, 0, 0, 0, 0], orch_argc = 0, kernel_addrs = ks,
      tensor_pairs = [], device_allocs = [], build_mode = 0, aicpu_orch_so = [],
      aicpu_orch_func_name = []\<rparr>"

definition example_limits :: Limits where
  "example_limits =
     \<lparr>RUNTIME_MAX_ORCH_ARGS = 16, RUNTIME_MAX_AICPU_ORCH_SO_SIZE = 1024,
      RUNTIME_MAX_ORCH_FUNC_NAME = 64, RUNTIME_MAX_TASKS = 8, RUNTIME_MAX_ARGS = 4\<rparr>"

text \<open>
  In concurrent build mode the scheduler dispatches published tasks while the build
  routine is still running, so that completions fall between builder calls. A run of the
  store is a list of events, each a builder call or the completion of a task.
\<close>

datatype store_event = Build builder_call | Completed nat

fun store_step :: "Limits \<Rightarrow> Runtime \<Rightarrow> store_event \<Rightarrow> Runtime" where
  "store_step lim rt (Build c) = builder_step lim rt c"
| "store_step lim rt (Completed t) = complete_task rt t"

definition run_store :: "Limits \<Rightarrow> Runtime \<Rightarrow> store_event list \<Rightarrow> Runtime" where
  "run_store lim rt es = foldl (store_step lim) rt es"

text \<open>
  An edge is declared in time when its predecessor has not completed yet at the call;
  \<open>edges_in_time\<close> says so of every \<open>add_successor_conditional\<close> call of a run.
\<close>

fun edge_in_time :: "Runtime \<Rightarrow> store_event \<Rightarrow> bool" where
  "edge_in_time rt (Build (AddSuccessorConditional p s)) =
     (\<not> (valid_task rt p \<and> complete (tasks rt ! nat p)))"
| "edge_in_time rt (Build (AddTask as arg_count f core flags)) = True"
| "edge_in_time rt (Build (PublishTask t)) = True"
| "edge_in_time rt (Completed t) = True"

fun edges_in_time :: "Limits \<Rightarrow> Runtime \<Rightarrow> store_event list \<Rightarrow> bool" where
  "edges_in_time lim rt [] = True"
| "edges_in_time lim rt (e # es) =
     (edge_in_time rt e \<and> edges_in_time lim (store_step lim rt e) es)"

text \<open>A build of two tasks with one edge, task 0 before task 1.\<close>

definition two_task_build :: "builder_call list" where
  "two_task_build = [AddTask [] 0 0 AIV 0, PublishTask 0, AddTask [] 0 0 AIV 0,
                     AddSuccessorConditional 0 1, PublishTask 1]"

text \<open>
  The same build overlapped with the scheduler: task 0 completes before the edge to
  task 1 is declared.
\<close>

definition late_edge_run :: "store_event list" where
  "late_edge_run = [Build (AddTask [] 0 0 AIV 0), Build (PublishTask 0), Completed 0,
                    Build (AddTask [] 0 0 AIV 0), Build (AddSuccessorConditional 0 1),
                    Build (PublishTask 1)]"

text \<open>
  An overlapped run of three tasks in a chain in which every edge is declared in time:
  task 0 completes while the build goes on with task 2.
\<close>

definition overlapped_run :: "store_event list" where
  "overlapped_run = [Build (AddTask [] 0 0 AIV 0), Build (AddTask [] 0 0 AIV 0),
                     Build (AddSuccessorConditional 0 1), Build (PublishTask 0),
                     Build (PublishTask 1), Completed 0,
                     Build (AddTask [] 0 0 AIV 0), Build (AddSuccessorConditional 1 2),
                     Build (PublishTask 2)]"

section \<open>runtime\_maker.cpp: the build mode\<close>

text \<open>
  A C string is modelled by the list of its characters before the terminating NUL, and
  a possibly null \<open>const char*\<close> by a \<open>string option\<close>. The character classes are those
  of the C locale.
\<close>

definition isspace :: "char \<Rightarrow> bool" where
  "isspace c = (of_char c = (32 :: nat) \<or> (9 \<le> (of_char c :: nat) \<and> (of_char c :: nat) \<le> 13))"

definition isdigit :: "char \<Rightarrow> bool" where
  "isdigit c = (48 \<le> (of_char c :: nat) \<and> (of_char c :: nat) \<le> 57)"

definition tolower :: "char \<Rightarrow> char" where
  "tolower c = (if 65 \<le> (of_char c :: nat) \<and> (of_char c :: nat) \<le> 90
                then char_of (of_char c + 32 :: nat) else c)"

text \<open>\<open>strcasecmp a b\<close> holds when the C function returns 0.\<close>

definition strcasecmp :: "string \<Rightarrow> string \<Rightarrow> bool" where
  "strcasecmp a b = (map tolower a = map tolower b)"

definition digit_value :: "char \<Rightarrow> int" where
  "digit_value c = int (of_char c) - 48"

definition LONG_MAX :: int where
  "LONG_MAX = 2 ^ 63 - 1"

definition LONG_MIN :: int where
  "LONG_MIN = - (2 ^ 63)"

text \<open>
  \<open>strtol(s, &end, 10)\<close>: skip white space, read an optional sign, then the longest run
  of decimal digits; the value saturates at \<open>LONG_MIN\<close> and \<open>LONG_MAX\<close>. The result is
  the value and the offset of \<open>end\<close> from \<open>s\<close>, which is 0 when there is no digit.
\<close>

fun strtol_digits :: "int \<Rightarrow> string \<Rightarrow> int \<times> nat" where
  "strtol_digits acc [] = (acc, 0)"
| "strtol_digits acc (c # cs) =
     (if isdigit c
      then (case strtol_digits (acc * 10 + digit_value c) cs of (v, n) \<Rightarrow> (v, Suc n))
      else (acc, 0))"

definition strtol :: "string \<Rightarrow> int \<times> nat" where
  "strtol s =
     (let ws = takeWhile isspace s;
          r = dropWhile isspace s;
          neg = (r \<noteq> [] \<and> hd r = CHR ''-'');
          signed = (r \<noteq> [] \<and> (hd r = CHR ''-'' \<or> hd r = CHR ''+''));
          (v, n) = strtol_digits 0 (if signed then tl r else r)
      in if n = 0 then (0, 0)
         else (max LONG_MIN (min LONG_MAX (if neg then - v else v)),
               length ws + (if signed then 1 else 0) + n))"

definition parse_build_mode_env :: "string option \<Rightarrow> int \<Rightarrow> int" where
  "parse_build_mode_env s default_mode =
     (case s of
        None \<Rightarrow> default_mode
      | Some str \<Rightarrow>
          if str = [] then default_mode
          else if str = ''0'' \<or> strcasecmp str ''sequential'' then 0
          else if str = ''1'' \<or> strcasecmp str ''concurrent'' then 1
          else (case strtol str of
                  (v, end_offset) \<Rightarrow>
                    if end_offset \<noteq> 0 then (if v \<noteq> 0 then 1 else 0) else default_mode))"

text \<open>
  What it means for a string to have a parseable decimal prefix of value \<open>v\<close>: white
  space, an optional sign, and a non-empty run of digits that the rest of the string does
  not continue.
\<close>

definition decimal_value :: "string \<Rightarrow> int" where
  "decimal_value ds = foldl (\<lambda>a c. a * 10 + digit_value c) 0 ds"

definition decimal_prefix :: "string \<Rightarrow> int \<Rightarrow> bool" where
  "decimal_prefix s v =
     (\<exists>ws sign ds rest.
        s = ws @ sign @ ds @ rest \<and> (\<forall>c \<in> set ws. isspace c)
        \<and> (sign = [] \<or> sign = ''-'' \<or> sign = ''+'')
        \<and> ds \<noteq> [] \<and> (\<forall>c \<in> set ds. isdigit c)
        \<and> (rest = [] \<or> \<not> isdigit (hd rest))
        \<and> v = (if sign = ''-'' then - decimal_value ds else decimal_value ds))"

section \<open>runtime\_maker.cpp: the host API\<close>

text \<open>
  \<open>runtime->host_api\<close> is a table of function pointers into the platform. Its functions
  are parameters of the model: they act on a device state \<open>'h\<close> of their own. Every call
  through the table is appended to a trace with its arguments and its result, so that
  what was allocated, copied and freed can be stated.
\<close>

datatype host_event =
    DeviceMalloc u64 u64
  | DeviceFree u64
  | CopyToDevice u64 u64 u64 int
  | CopyFromDevice u64 u64 u64 int

record 'h HostApi =
  device_malloc :: "'h \<Rightarrow> u64 \<Rightarrow> u64 \<times> 'h"
  device_free :: "'h \<Rightarrow> u64 \<Rightarrow> 'h"
  copy_to_device :: "'h \<Rightarrow> u64 \<Rightarrow> u64 \<Rightarrow> u64 \<Rightarrow> int \<times> 'h"
  copy_from_device :: "'h \<Rightarrow> u64 \<Rightarrow> u64 \<Rightarrow> u64 \<Rightarrow> int \<times> 'h"

record 'h Host =
  device :: 'h
  trace :: "host_event list"

definition call_device_malloc :: "'h HostApi \<Rightarrow> 'h Host \<Rightarrow> u64 \<Rightarrow> u64 \<times> 'h Host" where
  "call_device_malloc api h nbytes =
     (case device_malloc api (device h) nbytes of
        (p, d) \<Rightarrow> (p, \<lparr>device = d, trace = trace h @ [DeviceMalloc nbytes p]\<rparr>))"

definition call_device_free :: "'h HostApi \<Rightarrow> 'h Host \<Rightarrow> u64 \<Rightarrow> 'h Host" where
  "call_device_free api h p =
     \<lparr>device = device_free api (device h) p, trace = trace h @ [DeviceFree p]\<rparr>"

definition call_copy_to_device :: "'h HostApi \<Rightarrow> 'h Host \<Rightarrow> u64 \<Rightarrow> u64 \<Rightarrow> u64 \<Rightarrow> int \<times> 'h Host" where
  "call_copy_to_device api h dev host nbytes =
     (case copy_to_device api (device h) dev host nbytes of
        (rc, d) \<Rightarrow> (rc, \<lparr>device = d, trace = trace h @ [CopyToDevice dev host nbytes rc]\<rparr>))"

definition call_copy_from_device :: "'h HostApi \<Rightarrow> 'h Host \<Rightarrow> u64 \<Rightarrow> u64 \<Rightarrow> u64 \<Rightarrow> int \<times> 'h Host" where
  "call_copy_from_device api h host dev nbytes =
     (case copy_from_device api (device h) host dev nbytes of
        (rc, d) \<Rightarrow> (rc, \<lparr>device = d, trace = trace h @ [CopyFromDevice host dev nbytes rc]\<rparr>))"

text \<open>
  Replaying a trace on the host API: each call is made through the table on the device
  state that the previous call left. The replay gives the device state after the last
  call, and fails if a call does not return the result that the trace records.
\<close>

fun host_run :: "'h HostApi \<Rightarrow> 'h \<Rightarrow> host_event list \<Rightarrow> 'h option" where
  "host_run api d [] = Some d"
| "host_run api d (DeviceMalloc nbytes p # es) =
     (case device_malloc api d nbytes of
        (p', d') \<Rightarrow> if p' = p then host_run api d' es else None)"
| "host_run api d (DeviceFree p # es) = host_run api (device_free api d p) es"
| "host_run api d (CopyToDevice dev host nbytes rc # es) =
     (case copy_to_device api d dev host nbytes of
        (rc', d') \<Rightarrow> if rc' = rc then host_run api d' es else None)"
| "host_run api d (CopyFromDevice host dev nbytes rc # es) =
     (case copy_from_device api d host dev nbytes of
        (rc', d') \<Rightarrow> if rc' = rc then host_run api d' es else None)"

text \<open>
  The host \<open>h'\<close> follows from \<open>h\<close> by calls through the table only: the trace of \<open>h'\<close>
  extends that of \<open>h\<close>, and replaying the new calls from the device state of \<open>h\<close>
  gives the device state of \<open>h'\<close>.
\<close>

definition faithful :: "'h HostApi \<Rightarrow> 'h Host \<Rightarrow> 'h Host \<Rightarrow> bool" where
  "faithful api h h' =
     (take (length (trace h)) (trace h') = trace h
      \<and> host_run api (device h) (drop (length (trace h)) (trace h')) = Some (device h'))"

text \<open>
  Modelled from the spec: the bookkeeping methods of \<open>Runtime\<close> (declared in \<open>runtime.h\<close>,
  which is not part of the sources). \<open>record_device_alloc\<close> and \<open>record_tensor_pair\<close>
  add a record, the \<open>clear\<close> methods empty the collections, and
  \<open>try_set_aicpu_orch_so\<close> embeds the plugin unless it exceeds
  \<open>RUNTIME_MAX_AICPU_ORCH_SO_SIZE\<close>.
\<close>

definition record_device_alloc :: "Runtime \<Rightarrow> u64 \<Rightarrow> Runtime" where
  "record_device_alloc rt p = rt\<lparr>device_allocs := device_allocs rt @ [\<lparr>alloc_dev_ptr = p\<rparr>]\<rparr>"

definition record_tensor_pair :: "Runtime \<Rightarrow> u64 \<Rightarrow> u64 \<Rightarrow> u64 \<Rightarrow> Runtime" where
  "record_tensor_pair rt host dev nbytes =
     rt\<lparr>tensor_pairs := tensor_pairs rt @ [\<lparr>host_ptr = host, dev_ptr = dev, size_bytes = nbytes\<rparr>]\<rparr>"

definition clear_tensor_pairs :: "Runtime \<Rightarrow> Runtime" where
  "clear_tensor_pairs rt = rt\<lparr>tensor_pairs := []\<rparr>"

definition clear_device_allocs :: "Runtime \<Rightarrow> Runtime" where
  "clear_device_allocs rt = rt\<lparr>device_allocs := []\<rparr>"

definition try_set_aicpu_orch_so :: "Limits \<Rightarrow> Runtime \<Rightarrow> 8 word list \<Rightarrow> nat \<Rightarrow> bool \<times> Runtime" where
  "try_set_aicpu_orch_so lim rt binary n =
     (if n > RUNTIME_MAX_AICPU_ORCH_SO_SIZE lim then (False, rt)
      else (True, rt\<lparr>aicpu_orch_so := take n binary\<rparr>))"

section \<open>runtime\_maker.cpp: init\_runtime\_impl\<close>

definition ARG_SCALAR :: int where
  "ARG_SCALAR = 0"

definition ARG_INPUT_PTR :: int where
  "ARG_INPUT_PTR = 1"

definition ARG_OUTPUT_PTR :: int where
  "ARG_OUTPUT_PTR = 2"

definition ARG_INOUT_PTR :: int where
  "ARG_INOUT_PTR = 3"

text \<open>
  Every \<open>return -1\<close> of \<open>init_runtime_impl\<close> follows a message on \<open>std::cerr\<close>; the error
  value records which one, with the argument index the message prints.
\<close>

datatype init_error =
    NullRuntime
  | InvalidOrchestration
  | TooManyArgs
  | MallocFailed nat
  | CopyFailed nat
  | OrchSoTooLarge

fun return_code :: "init_error option \<Rightarrow> int" where
  "return_code None = 0"
| "return_code (Some e) = -1"

text \<open>
  \<open>arg_types\<close> and \<open>arg_sizes\<close> may be null; \<open>func_args\<close>, \<open>arg_types\<close> and \<open>arg_sizes\<close>
  are the caller's arrays, read at indices below \<open>func_args_count\<close>.
\<close>

definition arg_type :: "int list option \<Rightarrow> nat \<Rightarrow> int" where
  "arg_type arg_types i = (case arg_types of None \<Rightarrow> ARG_SCALAR | Some ts \<Rightarrow> ts ! i)"

definition arg_size :: "u64 list option \<Rightarrow> nat \<Rightarrow> u64" where
  "arg_size arg_sizes i = (case arg_sizes of None \<Rightarrow> 0 | Some ss \<Rightarrow> ss ! i)"

text \<open>One iteration of the marshalling loop, for argument \<open>i\<close>.\<close>

definition marshal_arg ::
  "'h HostApi \<Rightarrow> u64 list \<Rightarrow> int list option \<Rightarrow> u64 list option \<Rightarrow> nat \<Rightarrow>
   Runtime \<times> 'h Host \<Rightarrow> init_error option \<times> Runtime \<times> 'h Host" where
  "marshal_arg api func_args arg_types arg_sizes i st =
     (case st of (rt, h) \<Rightarrow>
       let atype = arg_type arg_types i; asize = arg_size arg_sizes i in
       if atype = ARG_SCALAR
       then (None, rt\<lparr>orch_args := (orch_args rt)[i := func_args ! i]\<rparr>, h)
       else
         let hptr = func_args ! i; nbytes = asize in
         (case call_device_malloc api h nbytes of (dptr, h1) \<Rightarrow>
           if dptr = nullptr then (Some (MallocFailed i), rt, h1)
           else
             let rt1 = record_device_alloc rt dptr;
                 (rc, h2) = (if atype = ARG_INPUT_PTR \<or> atype = ARG_INOUT_PTR
                             then call_copy_to_device api h1 dptr hptr nbytes
                             else (0, h1))
             in if rc \<noteq> 0 then (Some (CopyFailed i), rt1, h2)
                else
                  let rt2 = (if atype = ARG_OUTPUT_PTR \<or> atype = ARG_INOUT_PTR
                             then record_tensor_pair rt1 hptr dptr nbytes else rt1)
                  in (None, rt2\<lparr>orch_args := (orch_args rt2)[i := dptr]\<rparr>, h2)))"

text \<open>The loop \<open>for (int i = 0; i < func_args_count; i++)\<close>, over the list of its indices.\<close>

fun marshal_loop ::
  "'h HostApi \<Rightarrow> u64 list \<Rightarrow> int list option \<Rightarrow> u64 list option \<Rightarrow> nat list \<Rightarrow>
   Runtime \<times> 'h Host \<Rightarrow> init_error option \<times> Runtime \<times> 'h Host" where
  "marshal_loop api func_args arg_types arg_sizes [] st = (None, st)"
| "marshal_loop api func_args arg_types arg_sizes (i # is) st =
     (case marshal_arg api func_args arg_types arg_sizes i st of
        (None, st') \<Rightarrow> marshal_loop api func_args arg_types arg_sizes is st'
      | (Some e, st') \<Rightarrow> (Some e, st'))"

text \<open>
  \<open>init_runtime_impl\<close>. \<open>env\<close> is the value of \<open>PTO_AICPU_BUILD_GRAPH_BUILD_MODE\<close> in the
  environment. \<open>populate_kernel_addrs\<close> only reads \<open>kernel_addrs\<close> and prints a warning,
  so it leaves no mark on the state. The result is the error (none on success), the
  Runtime and the host; the C return value is \<open>return_code\<close> of the error.
\<close>

definition init_runtime_impl ::
  "Limits \<Rightarrow> 'h HostApi \<Rightarrow> string option \<Rightarrow> Runtime option \<Rightarrow> 8 word list option \<Rightarrow> nat \<Rightarrow>
   string option \<Rightarrow> u64 list \<Rightarrow> int \<Rightarrow> int list option \<Rightarrow> u64 list option \<Rightarrow> 'h Host \<Rightarrow>
   init_error option \<times> Runtime option \<times> 'h Host" where
  "init_runtime_impl lim api env runtime orch_so_binary orch_so_size orch_func_name
       func_args func_args_count arg_types arg_sizes h =
     (case runtime of
        None \<Rightarrow> (Some NullRuntime, None, h)
      | Some rt \<Rightarrow>
          if orch_so_binary = None \<or> orch_so_size = 0 \<or> orch_func_name = None
          then (Some InvalidOrchestration, Some rt, h)
          else
            let rt0 = clear_device_allocs (clear_tensor_pairs rt) in
            if func_args_count > RUNTIME_MAX_ORCH_ARGS lim then (Some TooManyArgs, Some rt0, h)
            else
              (case marshal_loop api func_args arg_types arg_sizes [0..<nat func_args_count] (rt0, h) of
                 (Some e, rt1, h1) \<Rightarrow> (Some e, Some rt1, h1)
               | (None, rt1, h1) \<Rightarrow>
                   let rt2 = rt1\<lparr>orch_argc := func_args_count\<rparr> in
                   (case try_set_aicpu_orch_so lim rt2 (the orch_so_binary) orch_so_size of
                      (False, rt3) \<Rightarrow> (Some OrchSoTooLarge, Some rt3, h1)
                    | (True, rt3) \<Rightarrow>
                        let rt4 = rt3\<lparr>aicpu_orch_func_name :=
                                    take (RUNTIME_MAX_ORCH_FUNC_NAME lim - 1) (the orch_func_name)\<rparr>;
                            rt5 = rt4\<lparr>build_mode := parse_build_mode_env env (build_mode rt4)\<rparr>
                        in (None, Some rt5, h1))))"

text \<open>
  What marshalling arguments \<open>0..k-1\<close> is expected to leave behind, in terms of the
  caller's arrays and of the marshalled \<open>orch_args\<close> (\<open>oa\<close>): the host API calls for
  argument \<open>i\<close>, the device allocation records and the tensor pairs.
\<close>

definition expected_events ::
  "u64 list \<Rightarrow> int list option \<Rightarrow> u64 list option \<Rightarrow> u64 list \<Rightarrow> nat \<Rightarrow> host_event list" where
  "expected_events func_args arg_types arg_sizes oa i =
     (if arg_type arg_types i = ARG_SCALAR then []
      else DeviceMalloc (arg_size arg_sizes i) (oa ! i) #
           (if arg_type arg_types i = ARG_INPUT_PTR \<or> arg_type arg_types i = ARG_INOUT_PTR
            then [CopyToDevice (oa ! i) (func_args ! i) (arg_size arg_sizes i) 0] else []))"

definition expected_allocs :: "int list option \<Rightarrow> u64 list \<Rightarrow> nat \<Rightarrow> DeviceAlloc list" where
  "expected_allocs arg_types oa k =
     map (\<lambda>i. \<lparr>alloc_dev_ptr = oa ! i\<rparr>)
       (filter (\<lambda>i. arg_type arg_types i \<noteq> ARG_SCALAR) [0..<k])"

definition expected_pairs ::
  "u64 list \<Rightarrow> int list option \<Rightarrow> u64 list option \<Rightarrow> u64 list \<Rightarrow> nat \<Rightarrow> TensorPair list" where
  "expected_pairs func_args arg_types arg_sizes oa k =
     map (\<lambda>i. \<lparr>host_ptr = func_args ! i, dev_ptr = oa ! i, size_bytes = arg_size arg_sizes i\<rparr>)
       (filter (\<lambda>i. arg_type arg_types i = ARG_OUTPUT_PTR \<or> arg_type arg_types i = ARG_INOUT_PTR)
          [0..<k])"

text \<open>The state \<open>(rt, h)\<close> after arguments \<open>0..k-1\<close> were marshalled from \<open>(rt0, h0)\<close>.\<close>

definition marshalled ::
  "u64 list \<Rightarrow> int list option \<Rightarrow> u64 list option \<Rightarrow> nat \<Rightarrow> Runtime \<Rightarrow> 'h Host \<Rightarrow>
   Runtime \<Rightarrow> 'h Host \<Rightarrow> bool" where
  "marshalled func_args arg_types arg_sizes k rt0 h0 rt h =
     (length (orch_args rt) = length (orch_args rt0)
      \<and> orch_argc rt = orch_argc rt0
      \<and> device_allocs rt = device_allocs rt0 @ expected_allocs arg_types (orch_args rt) k
      \<and> tensor_pairs rt = tensor_pairs rt0
            @ expected_pairs func_args arg_types arg_sizes (orch_args rt) k
      \<and> trace h = trace h0
            @ concat (map (expected_events func_args arg_types arg_sizes (orch_args rt)) [0..<k])
      \<and> (\<forall>i < k. if arg_type arg_types i = ARG_SCALAR then orch_args rt ! i = func_args ! i
                   else orch_args rt ! i \<noteq> nullptr))"

section \<open>runtime\_maker.cpp: validate\_runtime\_impl\<close>

text \<open>The copy-back loop; \<open>rc\<close> keeps the status of the last copy that failed.\<close>

fun copy_back :: "'h HostApi \<Rightarrow> TensorPair list \<Rightarrow> int \<times> 'h Host \<Rightarrow> int \<times> 'h Host" where
  "copy_back api [] st = st"
| "copy_back api (pair # pairs) (rc, h) =
     (case call_copy_from_device api h (host_ptr pair) (dev_ptr pair) (size_bytes pair) of
        (copy_rc, h') \<Rightarrow> copy_back api pairs (if copy_rc \<noteq> 0 then copy_rc else rc, h'))"

definition is_recorded_alloc :: "DeviceAlloc list \<Rightarrow> u64 \<Rightarrow> bool" where
  "is_recorded_alloc allocs p =
     (if p = nullptr then False else list_ex (\<lambda>a. alloc_dev_ptr a = p) allocs)"

fun free_device_allocs :: "'h HostApi \<Rightarrow> DeviceAlloc list \<Rightarrow> 'h Host \<Rightarrow> 'h Host" where
  "free_device_allocs api [] h = h"
| "free_device_allocs api (a # as) h =
     (if alloc_dev_ptr a = nullptr then free_device_allocs api as h
      else free_device_allocs api as (call_device_free api h (alloc_dev_ptr a)))"

fun free_tensor_pairs :: "'h HostApi \<Rightarrow> DeviceAlloc list \<Rightarrow> TensorPair list \<Rightarrow> 'h Host \<Rightarrow> 'h Host" where
  "free_tensor_pairs api allocs [] h = h"
| "free_tensor_pairs api allocs (pair # pairs) h =
     (if dev_ptr pair = nullptr then free_tensor_pairs api allocs pairs h
      else if is_recorded_alloc allocs (dev_ptr pair) then free_tensor_pairs api allocs pairs h
      else free_tensor_pairs api allocs pairs (call_device_free api h (dev_ptr pair)))"

definition validate_runtime_impl ::
  "'h HostApi \<Rightarrow> Runtime option \<Rightarrow> 'h Host \<Rightarrow> int \<times> Runtime option \<times> 'h Host" where
  "validate_runtime_impl api runtime h =
     (case runtime of
        None \<Rightarrow> (-1, None, h)
      | Some rt \<Rightarrow>
          (case copy_back api (tensor_pairs rt) (0, h) of
             (rc, h1) \<Rightarrow>
               let h2 = free_device_allocs api (device_allocs rt) h1;
                   h3 = free_tensor_pairs api (device_allocs rt) (tensor_pairs rt) h2
               in (rc, Some (clear_device_allocs (clear_tensor_pairs rt)), h3)))"

text \<open>The pointers passed to \<open>device_free\<close> in a trace, in order.\<close>

fun freed :: "host_event list \<Rightarrow> u64 list" where
  "freed [] = []"
| "freed (DeviceFree p # es) = p # freed es"
| "freed (e # es) = freed es"

text \<open>The non-null results of \<open>device_malloc\<close> in a trace, in order.\<close>

fun allocated :: "host_event list \<Rightarrow> u64 list" where
  "allocated [] = []"
| "allocated (DeviceMalloc n p # es) = (if p = nullptr then allocated es else p # allocated es)"
| "allocated (e # es) = allocated es"

text \<open>
  A host API for the concrete runs below: the device state counts the allocations and
  \<open>device_malloc\<close> returns a fresh address for each; copies succeed.
\<close>

definition example_api :: "nat HostApi" where
  "example_api =
     \<lparr>device_malloc = (\<lambda>d n. (of_nat (4096 * (d + 1)), d + 1)),
      device_free = (\<lambda>d p. d),
      copy_to_device = (\<lambda>d dev host n. (0, d)),
      copy_from_device = (\<lambda>d host dev n. (0, d))\<rparr>"

text \<open>The same API with device memory for two allocations only.\<close>

definition exhausted_api :: "nat HostApi" where
  "exhausted_api =
     example_api\<lparr>device_malloc := (\<lambda>d n. (if d < 2 then of_nat (4096 * (d + 1)) else nullptr, d + 1))\<rparr>"

text \<open>
  A host API whose device state also keeps what was copied to the device: the number of
  allocations, and the list of the host-to-device copies as (device address, host
  address, size).
\<close>

definition copying_api :: "(nat \<times> (u64 \<times> u64 \<times> u64) list) HostApi" where
  "copying_api =
     \<lparr>device_malloc = (\<lambda>d n. (of_nat (4096 * (fst d + 1)), (fst d + 1, snd d))),
      device_free = (\<lambda>d p. d),
      copy_to_device = (\<lambda>d dev host n. (0, (fst d, snd d @ [(dev, host, n)]))),
      copy_from_device = (\<lambda>d host dev n. (0, d))\<rparr>"

text \<open>
  The states that the two concrete calls of \<open>init_runtime_impl\<close> below end in: four
  arguments (a scalar, an input, an output and an in/out pointer) marshalled with
  \<open>copying_api\<close>, and the same call failing at the fourth argument with \<open>exhausted_api\<close>.
\<close>

definition example_marshalled :: Runtime where
  "example_marshalled =
     (fresh_runtime [])
       \<lparr>orch_args := [7, 4096, 8192, 12288, 0, 0, 0, 0, 0, 0, 0, 0, 0, 0, 0, 0],
        orch_argc := 4,
        tensor_pairs := [\<lparr>host_ptr = 512, dev_ptr = 8192, size_bytes = 32\<rparr>,
                         \<lparr>host_ptr = 768, dev_ptr = 12288, size_bytes = 64\<rparr>],
        device_allocs := [\<lparr>alloc_dev_ptr = 4096\<rparr>, \<lparr>alloc_dev_ptr = 8192\<rparr>,
                          \<lparr>alloc_dev_ptr = 12288\<rparr>],
        aicpu_orch_so := [1, 2],
        aicpu_orch_func_name := ''orchestration''\<rparr>"

definition example_copied_host :: "(nat \<times> (u64 \<times> u64 \<times> u64) list) Host" where
  "example_copied_host =
     \<lparr>device = (3, [(4096, 256, 16), (12288, 768, 64)]),
      trace = [DeviceMalloc 16 4096, CopyToDevice 4096 256 16 0, DeviceMalloc 32 8192,
               DeviceMalloc 64 12288, CopyToDevice 12288 768 64 0]\<rparr>"

definition example_failed :: Runtime where
  "example_failed =
     (fresh_runtime [])
       \<lparr>orch_args := [7, 4096, 8192, 0, 0, 0, 0, 0, 0, 0, 0, 0, 0, 0, 0, 0],
        tensor_pairs := [\<lparr>host_ptr = 512, dev_ptr = 8192, size_bytes = 32\<rparr>],
        device_allocs := [\<lparr>alloc_dev_ptr = 4096\<rparr>, \<lparr>alloc_dev_ptr = 8192\<rparr>]\<rparr>"

definition example_failed_host :: "nat Host" where
  "example_failed_host =
     \<lparr>device = 3,
      trace = [DeviceMalloc 16 4096, CopyToDevice 4096 256 16 0, DeviceMalloc 32 8192,
               DeviceMalloc 64 0]\<rparr>"

section \<open>The orchestration delegate of the vector example\<close>















section \<open>Results: the graph store invariant\<close>

lemma incomplete_preds_append:
  "incomplete_preds (ts @ [t]) s =
     incomplete_preds ts s + (if complete t then 0 else count_list (outgoing t) s)"
  by (simp add: incomplete_preds_def)

lemma incomplete_preds_update:
  assumes "p < length ts"
  shows "incomplete_preds (ts[p := x]) s + (if complete (ts ! p) then 0 else count_list (outgoing (ts ! p)) s)
         = incomplete_preds ts s + (if complete x then 0 else count_list (outgoing x) s)"
proof -
  let ?f = "\<lambda>p. if complete p then 0 else count_list (outgoing p) s"
  have "sum_list ((map ?f ts)[p := ?f x]) = sum_list (map ?f ts) + ?f x - (map ?f ts) ! p"
    using assms by (simp add: sum_list_update)
  moreover have "(map ?f ts) ! p \<le> sum_list (map ?f ts)"
    using assms by (simp add: member_le_sum_list)
  ultimately show ?thesis
    using assms by (simp add: incomplete_preds_def map_update)
qed

lemma foldl_release_length: "length (foldl release_successor ts xs) = length ts"
  by (induction xs arbitrary: ts) (simp_all add: release_successor_def)

lemma foldl_release_nth:
  "s < length ts \<Longrightarrow>
   foldl release_successor ts xs ! s =
     (ts ! s)\<lparr>pending_preds := pending_preds (ts ! s) - count_list xs s\<rparr>"
proof (induction xs arbitrary: ts)
  case Nil
  then show ?case by simp
next
  case (Cons x xs)
  have len: "s < length (release_successor ts x)"
    using Cons.prems by (simp add: release_successor_def)
  show ?case
  proof (cases "x = s")
    case True
    then show ?thesis
      using Cons.IH [OF len] Cons.prems by (simp add: release_successor_def)
  next
    case False
    then show ?thesis
      using Cons.IH [OF len] Cons.prems by (simp add: release_successor_def)
  qed
qed


lemma incomplete_preds_pending_update:
  assumes "s < length ts"
  shows "incomplete_preds (ts[s := (ts ! s)\<lparr>pending_preds := n\<rparr>]) s' = incomplete_preds ts s'"
  using incomplete_preds_update [OF assms, of "(ts ! s)\<lparr>pending_preds := n\<rparr>" s']
  by (cases "complete (ts ! s)") simp_all

lemma incomplete_preds_published_update:
  assumes "s < length ts"
  shows "incomplete_preds (ts[s := (ts ! s)\<lparr>published := b\<rparr>]) s' = incomplete_preds ts s'"
  using incomplete_preds_update [OF assms, of "(ts ! s)\<lparr>published := b\<rparr>" s']
  by (cases "complete (ts ! s)") simp_all

lemma incomplete_preds_outgoing_update:
  assumes "p < length ts" and "\<not> complete (ts ! p)"
  shows "incomplete_preds (ts[p := (ts ! p)\<lparr>outgoing := outgoing (ts ! p) @ [s]\<rparr>]) s'
         = incomplete_preds ts s' + (if s = s' then 1 else 0)"
  using incomplete_preds_update [OF assms(1), of "(ts ! p)\<lparr>outgoing := outgoing (ts ! p) @ [s]\<rparr>" s']
    assms(2) by simp

lemma incomplete_preds_complete_update:
  assumes "p < length ts" and "\<not> complete (ts ! p)"
  shows "incomplete_preds (ts[p := (ts ! p)\<lparr>complete := True\<rparr>]) s'
         = incomplete_preds ts s' - count_list (outgoing (ts ! p)) s'"
  using incomplete_preds_update [OF assms(1), of "(ts ! p)\<lparr>complete := True\<rparr>" s']
    assms(2) by simp

lemma incomplete_preds_out_of_range:
  assumes "\<forall>p < length ts. \<forall>s \<in> set (outgoing (ts ! p)). s < length ts" and "length ts \<le> s"
  shows "incomplete_preds ts s = 0"
proof -
  have "\<forall>t \<in> set ts. count_list (outgoing t) s = 0"
  proof
    fix t assume "t \<in> set ts"
    then obtain p where "p < length ts" "ts ! p = t"
      by (auto simp: in_set_conv_nth)
    with assms have "s \<notin> set (outgoing t)"
      by fastforce
    then show "count_list (outgoing t) s = 0"
      by (simp add: count_list_0_iff)
  qed
  then have "\<forall>n \<in> set (map (\<lambda>p. if complete p then 0 else count_list (outgoing p) s) ts). n = 0"
    by auto
  then show ?thesis
    unfolding incomplete_preds_def sum_list_eq_0_iff by blast
qed

lemma add_task_store_inv:
  assumes "store_inv (tasks rt)"
  shows "store_inv (tasks (snd (add_task lim rt as n f core flags)))"
proof (cases "length (tasks rt) \<ge> RUNTIME_MAX_TASKS lim \<or> n > RUNTIME_MAX_ARGS lim
         \<or> \<not> has_kernel rt f")
  case True
  then show ?thesis
    using assms by (simp add: add_task_def)
next
  case False
  let ?t = "\<lparr>func_id = f, args = take (nat n) as, core_type = core,
             published = False, complete = False, outgoing = [], pending_preds = 0\<rparr>"
  from False have eq: "tasks (snd (add_task lim rt as n f core flags)) = tasks rt @ [?t]"
    by (simp add: add_task_def)
  have wf: "\<forall>p < length (tasks rt). \<forall>s \<in> set (outgoing (tasks rt ! p)). s < length (tasks rt)"
    using assms by (simp add: store_inv_def)
  have new: "incomplete_preds (tasks rt) (length (tasks rt)) = 0"
    using incomplete_preds_out_of_range [OF wf] by simp
  have "\<forall>p < length (tasks rt @ [?t]). \<forall>s \<in> set (outgoing ((tasks rt @ [?t]) ! p)).
          s < length (tasks rt @ [?t])"
    using wf by (auto simp: nth_append less_Suc_eq)
  moreover have "\<forall>s < length (tasks rt @ [?t]).
          pending_preds ((tasks rt @ [?t]) ! s) = incomplete_preds (tasks rt @ [?t]) s"
    using assms new by (auto simp: store_inv_def nth_append incomplete_preds_append less_Suc_eq)
  ultimately show ?thesis
    unfolding eq store_inv_def by blast
qed

lemma publish_task_store_inv:
  assumes "store_inv (tasks rt)"
  shows "store_inv (tasks (snd (publish_task rt t)))"
  using assms
  by (auto simp: publish_task_def store_inv_def valid_task_def nth_list_update
      incomplete_preds_published_update)

lemma add_successor_conditional_store_inv:
  assumes "store_inv (tasks rt)" and "\<not> (valid_task rt pid \<and> complete (tasks rt ! nat pid))"
  shows "store_inv (tasks (snd (add_successor_conditional rt pid sid)))"
proof (cases "\<not> valid_task rt pid \<or> \<not> valid_task rt sid \<or> published (tasks rt ! nat sid)")
  case True
  then show ?thesis
    using assms(1) by (auto simp: add_successor_conditional_def)
next
  case False
  define ts where "ts = tasks rt"
  define p where "p = nat pid"
  define s where "s = nat sid"
  define ts1 where "ts1 = ts[p := (ts ! p)\<lparr>outgoing := outgoing (ts ! p) @ [s]\<rparr>]"
  define ts2 where "ts2 = ts1[s := (ts1 ! s)\<lparr>pending_preds := pending_preds (ts1 ! s) + 1\<rparr>]"
  from False have p: "p < length ts" and s: "s < length ts"
    by (simp_all add: valid_task_def p_def s_def ts_def)
  from False have eq: "tasks (snd (add_successor_conditional rt pid sid)) = ts2"
    by (simp add: add_successor_conditional_def Let_def ts2_def ts1_def ts_def p_def s_def)
  have inc: "\<not> complete (ts ! p)"
    using assms(2) False by (simp add: ts_def p_def)
  have wf: "\<forall>q < length ts. \<forall>x \<in> set (outgoing (ts ! q)). x < length ts"
    and cnt: "\<forall>x < length ts. pending_preds (ts ! x) = incomplete_preds ts x"
    using assms(1) by (simp_all add: store_inv_def ts_def)
  have len: "length ts2 = length ts" "length ts1 = length ts"
    by (simp_all add: ts2_def ts1_def)
  have out2: "outgoing (ts2 ! q) = (if q = p then outgoing (ts ! p) @ [s] else outgoing (ts ! q))"
    if "q < length ts" for q
    using that p s by (simp add: ts2_def ts1_def nth_list_update)
  have pend2: "pending_preds (ts2 ! x) = pending_preds (ts ! x) + (if s = x then 1 else 0)"
    if "x < length ts" for x
    using that p s by (simp add: ts2_def ts1_def nth_list_update)
  have ip2: "incomplete_preds ts2 x = incomplete_preds ts x + (if s = x then 1 else 0)" for x
  proof -
    have "incomplete_preds ts2 x = incomplete_preds ts1 x"
      unfolding ts2_def using s len by (simp add: incomplete_preds_pending_update)
    also have "\<dots> = incomplete_preds ts x + (if s = x then 1 else 0)"
      unfolding ts1_def using p inc by (rule incomplete_preds_outgoing_update)
    finally show ?thesis .
  qed
  have "\<forall>q < length ts2. \<forall>x \<in> set (outgoing (ts2 ! q)). x < length ts2"
    using wf s by (auto simp: len out2)
  moreover have "\<forall>x < length ts2. pending_preds (ts2 ! x) = incomplete_preds ts2 x"
    using cnt by (simp add: len pend2 ip2)
  ultimately show ?thesis
    unfolding eq store_inv_def by blast
qed

lemma incomplete_preds_cong:
  assumes "length ts = length ts'"
    and "\<forall>i < length ts. complete (ts ! i) = complete (ts' ! i) \<and> outgoing (ts ! i) = outgoing (ts' ! i)"
  shows "incomplete_preds ts s = incomplete_preds ts' s"
proof -
  have "map (\<lambda>p. if complete p then 0 else count_list (outgoing p) s) ts
        = map (\<lambda>p. if complete p then 0 else count_list (outgoing p) s) ts'"
    using assms by (intro nth_equalityI) simp_all
  then show ?thesis
    by (simp add: incomplete_preds_def)
qed

lemma complete_task_store_inv:
  assumes "store_inv (tasks rt)"
  shows "store_inv (tasks (complete_task rt t))"
proof (cases "dispatch_eligible rt t \<and> \<not> complete (tasks rt ! t)")
  case False
  then show ?thesis
    using assms by (auto simp: complete_task_def)
next
  case True
  define ts where "ts = tasks rt"
  define out where "out = outgoing (ts ! t)"
  define ts0 where "ts0 = ts[t := (ts ! t)\<lparr>complete := True\<rparr>]"
  define ts' where "ts' = foldl release_successor ts0 out"
  from True have t: "t < length ts" and inc: "\<not> complete (ts ! t)"
    by (simp_all add: dispatch_eligible_def ts_def)
  from True have eq: "tasks (complete_task rt t) = ts'"
    by (simp add: complete_task_def ts'_def ts0_def out_def ts_def)
  have wf: "\<forall>q < length ts. \<forall>x \<in> set (outgoing (ts ! q)). x < length ts"
    and cnt: "\<forall>x < length ts. pending_preds (ts ! x) = incomplete_preds ts x"
    using assms by (simp_all add: store_inv_def ts_def)
  have len: "length ts' = length ts" "length ts0 = length ts"
    by (simp_all add: ts'_def ts0_def foldl_release_length)
  have nth': "ts' ! x = (ts0 ! x)\<lparr>pending_preds := pending_preds (ts0 ! x) - count_list out x\<rparr>"
    if "x < length ts" for x
    unfolding ts'_def using that len by (simp add: foldl_release_nth)
  have out': "outgoing (ts' ! x) = outgoing (ts ! x)" if "x < length ts" for x
    using that t by (simp add: nth' ts0_def nth_list_update)
  have pend': "pending_preds (ts' ! x) = pending_preds (ts ! x) - count_list out x"
    if "x < length ts" for x
    using that t by (simp add: nth' ts0_def nth_list_update)
  have ip': "incomplete_preds ts' x = incomplete_preds ts x - count_list out x" for x
  proof -
    have "incomplete_preds ts' x = incomplete_preds ts0 x"
      by (rule incomplete_preds_cong) (simp_all add: len nth')
    also have "\<dots> = incomplete_preds ts x - count_list out x"
      unfolding ts0_def out_def using t inc by (rule incomplete_preds_complete_update)
    finally show ?thesis .
  qed
  have "\<forall>q < length ts'. \<forall>x \<in> set (outgoing (ts' ! q)). x < length ts'"
    using wf by (simp add: len out')
  moreover have "\<forall>x < length ts'. pending_preds (ts' ! x) = incomplete_preds ts' x"
    using cnt by (simp add: len pend' ip')
  ultimately show ?thesis
    unfolding eq store_inv_def by blast
qed

lemma store_step_inv:
  assumes "store_inv (tasks rt)" and "edge_in_time rt e"
  shows "store_inv (tasks (store_step lim rt e))"
proof (cases e)
  case (Build c)
  then show ?thesis
    using assms
    by (cases c)
       (simp_all add: add_task_store_inv add_successor_conditional_store_inv
          publish_task_store_inv)
next
  case (Completed t)
  then show ?thesis
    using assms(1) by (simp add: complete_task_store_inv)
qed

lemma run_store_inv:
  assumes "store_inv (tasks rt)" and "edges_in_time lim rt es"
  shows "store_inv (tasks (run_store lim rt es))"
  using assms unfolding run_store_def
proof (induction es arbitrary: rt)
  case Nil
  then show ?case by simp
next
  case (Cons e es)
  from Cons.prems have "store_inv (tasks (store_step lim rt e))"
    by (simp add: store_step_inv)
  then show ?case
    using Cons.IH Cons.prems(2) by simp
qed

lemma store_inv_pending_zero:
  assumes "store_inv (tasks rt)" and "t < length (tasks rt)"
  shows "pending_preds (tasks rt ! t) = 0
         \<longleftrightarrow> (\<forall>p \<in> set (predecessors rt t). complete (tasks rt ! p))"
proof -
  let ?f = "\<lambda>p. if complete p then 0 else count_list (outgoing p) t"
  have "pending_preds (tasks rt ! t) = 0 \<longleftrightarrow> sum_list (map ?f (tasks rt)) = 0"
    using assms by (simp add: store_inv_def incomplete_preds_def)
  also have "\<dots> \<longleftrightarrow> (\<forall>x \<in> set (tasks rt). ?f x = 0)"
    unfolding sum_list_eq_0_iff by auto
  also have "\<dots> \<longleftrightarrow> (\<forall>p < length (tasks rt). ?f (tasks rt ! p) = 0)"
    by (simp add: all_set_conv_all_nth)
  also have "\<dots> \<longleftrightarrow> (\<forall>p \<in> set (predecessors rt t). complete (tasks rt ! p))"
    by (auto simp: predecessors_def count_list_0_iff split: if_splits)
  finally show ?thesis .
qed

lemma two_task_run:
  "tasks (run_builder example_limits (fresh_runtime [4096]) two_task_build) =
     [\<lparr>func_id = 0, args = [], core_type = AIV, published = True, complete = False,
       outgoing = [1], pending_preds = 0\<rparr>,
      \<lparr>func_id = 0, args = [], core_type = AIV, published = True, complete = False,
       outgoing = [], pending_preds = 1\<rparr>]"
  by (simp add: run_builder_def two_task_build_def fresh_runtime_def example_limits_def
      add_task_def add_successor_conditional_def publish_task_def valid_task_def has_kernel_def
      Let_def)

text \<open>
  A sequential build, in which every builder call precedes every completion, declares
  all its edges in time, and its run is the build followed by the completions.
\<close>

lemma builder_step_incomplete:
  assumes "\<forall>i < length (tasks rt). \<not> complete (tasks rt ! i)"
  shows "\<forall>i < length (tasks (builder_step lim rt c)).
           \<not> complete (tasks (builder_step lim rt c) ! i)"
  using assms
  by (cases c)
     (auto simp: add_task_def publish_task_def add_successor_conditional_def valid_task_def
        Let_def nth_append nth_list_update)

lemma completions_in_time: "edges_in_time lim rt (map Completed finished)"
  by (induction finished arbitrary: rt) simp_all

lemma sequential_run_in_time:
  assumes "\<forall>i < length (tasks rt). \<not> complete (tasks rt ! i)"
  shows "edges_in_time lim rt (map Build calls @ map Completed finished)"
  using assms
proof (induction calls arbitrary: rt)
  case Nil
  then show ?case
    by (simp add: completions_in_time)
next
  case (Cons c calls)
  have "edge_in_time rt (Build c)"
    using Cons.prems by (cases c) (simp_all add: valid_task_def)
  moreover have "edges_in_time lim (builder_step lim rt c) (map Build calls @ map Completed finished)"
    using Cons.prems by (intro Cons.IH builder_step_incomplete)
  ultimately show ?case
    by simp
qed

lemma run_store_sequential:
  "run_store lim rt (map Build calls @ map Completed finished)
   = run_completions (run_builder lim rt calls) finished"
proof -
  have "foldl (store_step lim) r (map Build cs) = foldl (builder_step lim) r cs" for r cs
    by (induction cs arbitrary: r) simp_all
  moreover have "foldl (store_step lim) r (map Completed fs) = foldl complete_task r fs" for r fs
    by (induction fs arbitrary: r) simp_all
  ultimately show ?thesis
    by (simp add: run_store_def run_completions_def run_builder_def)
qed

lemma late_edge_run_tasks:
  "tasks (run_store example_limits (fresh_runtime [4096]) late_edge_run) =
     [\<lparr>func_id = 0, args = [], core_type = AIV, published = True, complete = True,
       outgoing = [1], pending_preds = 0\<rparr>,
      \<lparr>func_id = 0, args = [], core_type = AIV, published = True, complete = False,
       outgoing = [], pending_preds = 1\<rparr>]"
  by (simp add: run_store_def late_edge_run_def fresh_runtime_def example_limits_def
      add_task_def add_successor_conditional_def publish_task_def valid_task_def has_kernel_def
      complete_task_def dispatch_eligible_def release_successor_def Let_def)

lemma overlapped_run_tasks:
  "tasks (run_store example_limits (fresh_runtime [4096]) overlapped_run) =
     [\<lparr>func_id = 0, args = [], core_type = AIV, published = True, complete = True,
       outgoing = [1], pending_preds = 0\<rparr>,
      \<lparr>func_id = 0, args = [], core_type = AIV, published = True, complete = False,
       outgoing = [2], pending_preds = 0\<rparr>,
      \<lparr>func_id = 0, args = [], core_type = AIV, published = True, complete = False,
       outgoing = [], pending_preds = 1\<rparr>]"
  by (simp add: run_store_def overlapped_run_def fresh_runtime_def example_limits_def
      add_task_def add_successor_conditional_def publish_task_def valid_task_def has_kernel_def
      complete_task_def dispatch_eligible_def release_successor_def Let_def)

lemma overlapped_run_in_time:
  "edges_in_time example_limits (fresh_runtime [4096]) overlapped_run"
  by (simp add: overlapped_run_def fresh_runtime_def example_limits_def
      add_task_def add_successor_conditional_def publish_task_def valid_task_def has_kernel_def
      complete_task_def dispatch_eligible_def release_successor_def Let_def)

lemma late_edge_run_out_of_time:
  "\<not> edges_in_time example_limits (fresh_runtime [4096]) late_edge_run"
  by (simp add: late_edge_run_def fresh_runtime_def example_limits_def
      add_task_def add_successor_conditional_def publish_task_def valid_task_def has_kernel_def
      complete_task_def dispatch_eligible_def release_successor_def Let_def)

text \<open>
  The equivalence does not hold for every run. In concurrent build mode the builder may
  publish task 0, the scheduler may dispatch it and see it complete, and the builder may
  then create task 1, declare the edge from task 0 to task 1 and publish task 1: both
  calls return 0, but the completion of task 0 has already released its (then empty)
  outgoing set, so nothing decrements the count that the late edge adds. Task 1 is
  published, its only predecessor is complete, its pending-predecessor count is 1 and it
  is not dispatch-eligible.
\<close>

theorem dispatch_eligible_late_edge:
  "fst (add_successor_conditional
          (run_store example_limits (fresh_runtime [4096]) (take 4 late_edge_run)) 0 1) = 0
   \<and> fst (publish_task
          (run_store example_limits (fresh_runtime [4096]) (take 5 late_edge_run)) 1) = 0
   \<and> published (tasks (run_store example_limits (fresh_runtime [4096]) late_edge_run) ! 1)
   \<and> predecessors (run_store example_limits (fresh_runtime [4096]) late_edge_run) 1 = [0]
   \<and> complete (tasks (run_store example_limits (fresh_runtime [4096]) late_edge_run) ! 0)
   \<and> pending_preds (tasks (run_store example_limits (fresh_runtime [4096]) late_edge_run) ! 1) = 1
   \<and> \<not> dispatch_eligible (run_store example_limits (fresh_runtime [4096]) late_edge_run) 1"
proof -
  have calls: "fst (add_successor_conditional
          (run_store example_limits (fresh_runtime [4096]) (take 4 late_edge_run)) 0 1) = 0"
    "fst (publish_task
          (run_store example_limits (fresh_runtime [4096]) (take 5 late_edge_run)) 1) = 0"
    by (simp_all add: run_store_def late_edge_run_def fresh_runtime_def example_limits_def
        add_task_def add_successor_conditional_def publish_task_def valid_task_def
        has_kernel_def complete_task_def dispatch_eligible_def release_successor_def Let_def)
  have state: "published (tasks (run_store example_limits (fresh_runtime [4096]) late_edge_run) ! 1)"
    "predecessors (run_store example_limits (fresh_runtime [4096]) late_edge_run) 1 = [0]"
    "complete (tasks (run_store example_limits (fresh_runtime [4096]) late_edge_run) ! 0)"
    "pending_preds (tasks (run_store example_limits (fresh_runtime [4096]) late_edge_run) ! 1) = 1"
    "\<not> dispatch_eligible (run_store example_limits (fresh_runtime [4096]) late_edge_run) 1"
    by (simp_all add: late_edge_run_tasks predecessors_def dispatch_eligible_def upt_rec)
  from calls state show ?thesis
    by (intro conjI)
qed

text \<open>
  C1. Start from a fresh Runtime and run any sequence of \<open>add_task\<close>,
  \<open>add_successor_conditional\<close> and \<open>publish_task\<close> calls, interleaved in any way with
  task completions, in which no \<open>add_successor_conditional\<close> call names a predecessor
  that is already complete. In the state reached, a task is dispatch-eligible if and only
  if its published flag is set and every one of its predecessors is complete; and every
  predecessor is complete if and only if the pending-predecessor count is zero.
\<close>

theorem dispatch_eligible_iff:
  assumes "tasks rt0 = []"
    and "edges_in_time lim rt0 events"
    and "rt = run_store lim rt0 events"
    and "t < length (tasks rt)"
  shows "(dispatch_eligible rt t \<longleftrightarrow>
            published (tasks rt ! t) \<and> (\<forall>p \<in> set (predecessors rt t). complete (tasks rt ! p)))
         \<and> ((\<forall>p \<in> set (predecessors rt t). complete (tasks rt ! p))
              \<longleftrightarrow> pending_preds (tasks rt ! t) = 0)"
proof -
  have "store_inv (tasks rt0)"
    using assms(1) by (simp add: store_inv_def)
  then have "store_inv (tasks rt)"
    unfolding assms(3) using assms(2) by (rule run_store_inv)
  from store_inv_pending_zero [OF this assms(4)] assms(4) show ?thesis
    by (simp add: dispatch_eligible_def)
qed

theorem dispatch_eligible_iff_witness:
  "tasks (fresh_runtime [4096]) = []
   \<and> edges_in_time example_limits (fresh_runtime [4096]) overlapped_run
   \<and> dispatch_eligible (run_store example_limits (fresh_runtime [4096]) overlapped_run) 1
   \<and> predecessors (run_store example_limits (fresh_runtime [4096]) overlapped_run) 1 = [0]
   \<and> complete (tasks (run_store example_limits (fresh_runtime [4096]) overlapped_run) ! 0)
   \<and> \<not> dispatch_eligible (run_store example_limits (fresh_runtime [4096]) overlapped_run) 2
   \<and> predecessors (run_store example_limits (fresh_runtime [4096]) overlapped_run) 2 = [1]
   \<and> \<not> complete (tasks (run_store example_limits (fresh_runtime [4096]) overlapped_run) ! 1)"
proof -
  let ?rt = "run_store example_limits (fresh_runtime [4096]) overlapped_run"
  have fresh: "tasks (fresh_runtime [4096]) = []"
    by (simp add: fresh_runtime_def)
  have preds1: "predecessors ?rt 1 = [0]"
    by (simp add: predecessors_def overlapped_run_tasks upt_rec)
  have preds2: "predecessors ?rt 2 = [1]"
    by (simp add: predecessors_def overlapped_run_tasks upt_rec)
  have c0: "complete (tasks ?rt ! 0)" and c1: "\<not> complete (tasks ?rt ! 1)"
    and p1: "published (tasks ?rt ! 1)"
    by (simp_all add: overlapped_run_tasks)
  have "dispatch_eligible ?rt 1"
    using dispatch_eligible_iff [OF fresh overlapped_run_in_time refl, of 1]
      preds1 c0 p1 by (simp add: overlapped_run_tasks)
  moreover have "\<not> dispatch_eligible ?rt 2"
    using dispatch_eligible_iff [OF fresh overlapped_run_in_time refl, of 2]
      preds2 c1 by (simp add: overlapped_run_tasks)
  ultimately show ?thesis
    using fresh overlapped_run_in_time preds1 preds2 c0 c1 by (intro conjI)
qed

section \<open>Results: builder API\<close>

text \<open>
  C2. A call to \<open>add_successor_conditional\<close> whose predecessor identifier does not name
  an existing task, or whose successor identifier is out of range or names a task that is
  already published, returns a failure status and leaves the whole Runtime, and so the
  graph store, unchanged.
\<close>

theorem add_successor_conditional_rejects:
  assumes "\<not> valid_task rt predecessor_id \<or> \<not> valid_task rt successor_id
           \<or> published (tasks rt ! nat successor_id)"
  shows "add_successor_conditional rt predecessor_id successor_id = (-1, rt)"
  using assms unfolding add_successor_conditional_def by (simp split: if_splits)

theorem add_successor_conditional_rejects_witness:
  "add_successor_conditional (run_builder example_limits (fresh_runtime [4096]) two_task_build) 0 1
     = (-1, run_builder example_limits (fresh_runtime [4096]) two_task_build)
   \<and> add_successor_conditional (run_builder example_limits (fresh_runtime [4096]) two_task_build) 2 1
     = (-1, run_builder example_limits (fresh_runtime [4096]) two_task_build)
   \<and> add_successor_conditional (run_builder example_limits (fresh_runtime [4096]) two_task_build) 0 (-1)
     = (-1, run_builder example_limits (fresh_runtime [4096]) two_task_build)"
proof -
  let ?built = "run_builder example_limits (fresh_runtime [4096]) two_task_build"
  have "published (tasks ?built ! nat 1)"
    by (simp add: two_task_run)
  then have a: "add_successor_conditional ?built 0 1 = (-1, ?built)"
    by (intro add_successor_conditional_rejects) simp
  have "\<not> valid_task ?built 2"
    by (simp add: valid_task_def two_task_run)
  then have b: "add_successor_conditional ?built 2 1 = (-1, ?built)"
    by (intro add_successor_conditional_rejects) simp
  have "\<not> valid_task ?built (-1)"
    by (simp add: valid_task_def)
  then have c: "add_successor_conditional ?built 0 (-1) = (-1, ?built)"
    by (intro add_successor_conditional_rejects) simp
  from a b c show ?thesis
    by (intro conjI)
qed

lemma distinct_count_list_le_1: "distinct xs \<Longrightarrow> count_list xs x \<le> 1"
  by (induction xs) auto

lemma publish_task_sets_flag:
  assumes "publish_task rt t = (0, rt1)"
  shows "valid_task rt1 t \<and> published (tasks rt1 ! nat t)"
proof (cases "valid_task rt t \<and> \<not> published (tasks rt ! nat t)")
  case True
  then have "rt1 = rt\<lparr>tasks := (tasks rt)[nat t := (tasks rt ! nat t)\<lparr>published := True\<rparr>]\<rparr>"
    using assms by (simp add: publish_task_def)
  then show ?thesis
    using True by (simp add: valid_task_def)
next
  case False
  then show ?thesis
    using assms by (simp add: publish_task_def split: if_splits)
qed

lemma foldl_release_published:
  "s < length ts \<Longrightarrow> published (foldl release_successor ts xs ! s) = published (ts ! s)"
  by (simp add: foldl_release_nth)

lemma complete_task_keeps_published:
  assumes "valid_task rt t \<and> published (tasks rt ! nat t)"
  shows "valid_task (complete_task rt c) t \<and> published (tasks (complete_task rt c) ! nat t)"
proof (cases "dispatch_eligible rt c \<and> \<not> complete (tasks rt ! c)")
  case False
  then show ?thesis
    using assms by (auto simp: complete_task_def)
next
  case True
  then have c: "c < length (tasks rt)"
    by (simp add: dispatch_eligible_def)
  have t: "nat t < length (tasks rt)"
    using assms by (simp add: valid_task_def)
  show ?thesis
    using True assms t c
    by (simp add: complete_task_def valid_task_def foldl_release_length foldl_release_nth
        nth_list_update)
qed

lemma builder_step_keeps_published:
  assumes "valid_task rt t \<and> published (tasks rt ! nat t)"
  shows "valid_task (builder_step lim rt c) t \<and> published (tasks (builder_step lim rt c) ! nat t)"
proof (cases c)
  case (AddTask as n f core flags)
  then show ?thesis
    using assms by (simp add: add_task_def valid_task_def nth_append)
next
  case (AddSuccessorConditional p s)
  then show ?thesis
    using assms
    by (simp add: add_successor_conditional_def valid_task_def Let_def nth_list_update)
next
  case (PublishTask u)
  then show ?thesis
    using assms by (simp add: publish_task_def valid_task_def nth_list_update)
qed

lemma run_builder_keeps_published:
  assumes "valid_task rt t \<and> published (tasks rt ! nat t)"
  shows "valid_task (run_builder lim rt calls) t \<and> published (tasks (run_builder lim rt calls) ! nat t)"
  using assms unfolding run_builder_def
  by (induction calls arbitrary: rt) (simp_all add: builder_step_keeps_published)

lemma run_completions_keeps_published:
  assumes "valid_task rt t \<and> published (tasks rt ! nat t)"
  shows "valid_task (run_completions rt cs) t \<and> published (tasks (run_completions rt cs) ! nat t)"
  using assms unfolding run_completions_def
  by (induction cs arbitrary: rt) (simp_all add: complete_task_keeps_published)

lemma one_task_run:
  "run_builder example_limits (fresh_runtime [4096]) [AddTask [] 0 0 AIV 0] =
     (fresh_runtime [4096])\<lparr>tasks := [\<lparr>func_id = 0, args = [], core_type = AIV, published = False,
        complete = False, outgoing = [], pending_preds = 0\<rparr>]\<rparr>"
  by (simp add: run_builder_def fresh_runtime_def example_limits_def add_task_def has_kernel_def)

lemma one_task_published:
  "publish_task (run_builder example_limits (fresh_runtime [4096]) [AddTask [] 0 0 AIV 0]) 0 =
     (0, (fresh_runtime [4096])\<lparr>tasks := [\<lparr>func_id = 0, args = [], core_type = AIV, published = True,
        complete = False, outgoing = [], pending_preds = 0\<rparr>]\<rparr>)"
  unfolding one_task_run by (simp add: publish_task_def valid_task_def fresh_runtime_def)

text \<open>
  C3. After a successful \<open>publish_task\<close> on a task, and whatever builder calls and
  completions follow, a second \<open>publish_task\<close> on the same identifier returns the
  failure status, leaves the Runtime as it was with the published flag still set, and
  leaves the dispatch set unchanged, where the task occurs at most once.
\<close>

theorem publish_task_twice_rejected:
  assumes "publish_task rt t = (0, rt1)"
    and "rt2 = run_completions (run_builder lim rt1 calls) finished"
  shows "publish_task rt2 t = (-1, rt2)
         \<and> published (tasks (snd (publish_task rt2 t)) ! nat t)
         \<and> dispatch_set (snd (publish_task rt2 t)) = dispatch_set rt2
         \<and> count_list (dispatch_set (snd (publish_task rt2 t))) (nat t) \<le> 1"
proof -
  have "valid_task rt1 t \<and> published (tasks rt1 ! nat t)"
    using assms(1) by (rule publish_task_sets_flag)
  then have "valid_task (run_builder lim rt1 calls) t
      \<and> published (tasks (run_builder lim rt1 calls) ! nat t)"
    by (rule run_builder_keeps_published)
  then have pub: "valid_task rt2 t \<and> published (tasks rt2 ! nat t)"
    unfolding assms(2) by (rule run_completions_keeps_published)
  then have second: "publish_task rt2 t = (-1, rt2)"
    by (simp add: publish_task_def)
  have "distinct (dispatch_set rt2)"
    by (simp add: dispatch_set_def)
  then have "count_list (dispatch_set rt2) (nat t) \<le> 1"
    by (rule distinct_count_list_le_1)
  with pub second show ?thesis
    by simp
qed

theorem publish_task_twice_rejected_witness:
  "publish_task ((fresh_runtime [4096])\<lparr>tasks := [\<lparr>func_id = 0, args = [], core_type = AIV,
        published = True, complete = False, outgoing = [], pending_preds = 0\<rparr>]\<rparr>) 0
     = (-1, (fresh_runtime [4096])\<lparr>tasks := [\<lparr>func_id = 0, args = [], core_type = AIV,
        published = True, complete = False, outgoing = [], pending_preds = 0\<rparr>]\<rparr>)
   \<and> dispatch_set ((fresh_runtime [4096])\<lparr>tasks := [\<lparr>func_id = 0, args = [], core_type = AIV,
        published = True, complete = False, outgoing = [], pending_preds = 0\<rparr>]\<rparr>) = [0]"
proof -
  let ?rt1 = "(fresh_runtime [4096])\<lparr>tasks := [\<lparr>func_id = 0, args = [], core_type = AIV,
        published = True, complete = False, outgoing = [], pending_preds = 0\<rparr>]\<rparr>"
  have later: "?rt1 = run_completions (run_builder example_limits ?rt1 []) []"
    by (simp add: run_completions_def run_builder_def)
  have "publish_task ?rt1 0 = (-1, ?rt1)"
    using publish_task_twice_rejected [OF one_task_published later] by (rule conjunct1)
  moreover have "dispatch_set ?rt1 = [0]"
    by (simp add: dispatch_set_def dispatch_eligible_def)
  ultimately show ?thesis
    by (intro conjI)
qed

section \<open>Results: the build mode\<close>

lemma strtol_digits_takeWhile:
  "strtol_digits acc r =
     (foldl (\<lambda>a c. a * 10 + digit_value c) acc (takeWhile isdigit r), length (takeWhile isdigit r))"
  by (induction r arbitrary: acc) simp_all

lemma isdigit_not_lead: "isdigit c \<Longrightarrow> \<not> isspace c \<and> c \<noteq> CHR ''-'' \<and> c \<noteq> CHR ''+''"
  unfolding isdigit_def isspace_def by auto

lemma sign_not_space: "\<not> isspace CHR ''-''" "\<not> isspace CHR ''+''"
  by (simp_all add: isspace_def)

lemma sign_not_digit: "\<not> isdigit CHR ''-''" "\<not> isdigit CHR ''+''"
  by (simp_all add: isdigit_def)

lemma takeWhile_digits:
  assumes "\<forall>c \<in> set ds. isdigit c" and "rest = [] \<or> \<not> isdigit (hd rest)"
  shows "takeWhile isdigit (ds @ rest) = ds"
proof -
  have "takeWhile isdigit rest = []"
    using assms(2) by (cases rest) auto
  then show ?thesis
    using assms(1) by (simp add: takeWhile_append2)
qed

lemma saturate_nonzero: "max LONG_MIN (min LONG_MAX v) \<noteq> 0 \<longleftrightarrow> v \<noteq> 0"
  by (simp add: LONG_MIN_def LONG_MAX_def max_def min_def)

lemma strtol_decimal_prefix:
  assumes "decimal_prefix s v"
  shows "\<exists>k. k \<noteq> 0 \<and> strtol s = (max LONG_MIN (min LONG_MAX v), k)"
proof -
  from assms obtain ws sign ds rest where
    s: "s = ws @ sign @ ds @ rest" and ws: "\<forall>c \<in> set ws. isspace c"
    and sign: "sign = [] \<or> sign = ''-'' \<or> sign = ''+''"
    and ds: "ds \<noteq> []" "\<forall>c \<in> set ds. isdigit c"
    and rest: "rest = [] \<or> \<not> isdigit (hd rest)"
    and v: "v = (if sign = ''-'' then - decimal_value ds else decimal_value ds)"
    unfolding decimal_prefix_def by blast
  from ds obtain d ds' where dcons: "ds = d # ds'" and d: "isdigit d"
    by (cases ds) auto
  have tw: "takeWhile isdigit (ds @ rest) = ds"
    using ds(2) rest by (rule takeWhile_digits)
  have lead: "sign @ ds @ rest \<noteq> [] \<and> \<not> isspace (hd (sign @ ds @ rest))"
    using sign d dcons isdigit_not_lead [OF d] by (auto simp: sign_not_space)
  then have "takeWhile isspace (sign @ ds @ rest) = []" "dropWhile isspace (sign @ ds @ rest) = sign @ ds @ rest"
    by (cases "sign @ ds @ rest"; simp)+
  then have t: "takeWhile isspace s = ws" and r: "dropWhile isspace s = sign @ ds @ rest"
    using ws by (simp_all add: s takeWhile_append2 dropWhile_append2)
  from sign show ?thesis
  proof (elim disjE)
    assume "sign = []"
    moreover have "hd (ds @ rest) = d" "ds @ rest \<noteq> []"
      using dcons by simp_all
    ultimately show ?thesis
      using isdigit_not_lead [OF d] ds(1)
      by (simp add: strtol_def t r Let_def strtol_digits_takeWhile tw v decimal_value_def)
  next
    assume "sign = ''-''"
    then show ?thesis
      using ds(1)
      by (simp add: strtol_def t r Let_def strtol_digits_takeWhile tw v decimal_value_def)
  next
    assume "sign = ''+''"
    then show ?thesis
      using ds(1)
      by (simp add: strtol_def t r Let_def strtol_digits_takeWhile tw v decimal_value_def)
  qed
qed


lemma strtol_end_decimal_prefix:
  assumes "snd (strtol s) \<noteq> 0"
  shows "\<exists>v. decimal_prefix s v"
proof -
  define ws where "ws = takeWhile isspace s"
  define r where "r = dropWhile isspace s"
  define signed where "signed = (r \<noteq> [] \<and> (hd r = CHR ''-'' \<or> hd r = CHR ''+''))"
  define sign where "sign = (if signed then [hd r] else [])"
  define body where "body = (if signed then tl r else r)"
  define ds where "ds = takeWhile isdigit body"
  define rest where "rest = dropWhile isdigit body"
  have "r = sign @ body"
    by (cases r) (auto simp: sign_def body_def signed_def)
  moreover have "s = ws @ r" "body = ds @ rest"
    by (simp_all add: ws_def r_def ds_def rest_def)
  ultimately have s: "s = ws @ sign @ ds @ rest"
    by simp
  have ws: "\<forall>c \<in> set ws. isspace c"
    by (auto simp: ws_def dest: set_takeWhileD)
  have sign: "sign = [] \<or> sign = ''-'' \<or> sign = ''+''"
    by (auto simp: sign_def signed_def)
  have "length ds \<noteq> 0"
    using assms
    by (auto simp: strtol_def Let_def strtol_digits_takeWhile ds_def body_def signed_def r_def
        split: if_splits)
  then have ds: "ds \<noteq> []"
    by simp
  have digits: "\<forall>c \<in> set ds. isdigit c"
    by (auto simp: ds_def dest: set_takeWhileD)
  have rest: "rest = [] \<or> \<not> isdigit (hd rest)"
    unfolding rest_def by (metis hd_dropWhile)
  show ?thesis
    unfolding decimal_prefix_def using s ws sign ds digits rest by blast
qed

lemma decimal_prefix_lead:
  assumes "decimal_prefix s v"
  shows "s \<noteq> [] \<and> (isspace (hd s) \<or> isdigit (hd s) \<or> hd s = CHR ''-'' \<or> hd s = CHR ''+'')"
proof -
  from assms obtain ws sign ds rest where
    s: "s = ws @ sign @ ds @ rest" and ws: "\<forall>c \<in> set ws. isspace c"
    and sign: "sign = [] \<or> sign = ''-'' \<or> sign = ''+''"
    and ds: "ds \<noteq> []" "\<forall>c \<in> set ds. isdigit c"
    unfolding decimal_prefix_def by blast
  show ?thesis
  proof (cases ws)
    case (Cons w ws')
    then show ?thesis
      using ws by (simp add: s)
  next
    case Nil
    from ds obtain d ds' where "ds = d # ds'" "isdigit d"
      by (cases ds) auto
    then show ?thesis
      using sign Nil by (auto simp: s)
  qed
qed

lemma tolower_lead:
  assumes "isspace c \<or> isdigit c \<or> c = CHR ''-'' \<or> c = CHR ''+''"
  shows "tolower c = c"
  using assms unfolding isspace_def isdigit_def tolower_def by (elim disjE) simp_all

lemma keyword_no_decimal_prefix:
  assumes "map tolower s = k # ks"
    and "\<not> isspace k" "\<not> isdigit k" "k \<noteq> CHR ''-''" "k \<noteq> CHR ''+''"
  shows "\<not> decimal_prefix s v"
proof
  assume "decimal_prefix s v"
  then have lead: "s \<noteq> []" "isspace (hd s) \<or> isdigit (hd s) \<or> hd s = CHR ''-'' \<or> hd s = CHR ''+''"
    using decimal_prefix_lead by blast+
  then have "tolower (hd s) = hd s"
    using tolower_lead by blast
  moreover have "tolower (hd s) = k"
    using assms(1) lead(1) by (cases s) auto
  ultimately show False
    using lead(2) assms(2-5) by auto
qed

lemma sequential_no_decimal_prefix: "strcasecmp s ''sequential'' \<Longrightarrow> \<not> decimal_prefix s v"
  unfolding strcasecmp_def
  by (rule keyword_no_decimal_prefix [where k = "CHR ''s''"])
     (simp_all add: tolower_def isspace_def isdigit_def)

lemma concurrent_no_decimal_prefix: "strcasecmp s ''concurrent'' \<Longrightarrow> \<not> decimal_prefix s v"
  unfolding strcasecmp_def
  by (rule keyword_no_decimal_prefix [where k = "CHR ''c''"])
     (simp_all add: tolower_def isspace_def isdigit_def)


lemma strtol_0: "strtol ''0'' = (0, 1)"
  by (simp add: strtol_def isspace_def isdigit_def digit_value_def LONG_MIN_def LONG_MAX_def)

lemma strtol_1: "strtol ''1'' = (1, 1)"
  by (simp add: strtol_def isspace_def isdigit_def digit_value_def LONG_MIN_def LONG_MAX_def)

lemma parse_build_mode_env_sequential:
  assumes "x = ''0'' \<or> strcasecmp x ''sequential''"
  shows "parse_build_mode_env (Some x) d = 0"
proof -
  have "x \<noteq> []"
    using assms by (auto simp: strcasecmp_def)
  then show ?thesis
    using assms by (simp add: parse_build_mode_env_def)
qed

lemma parse_build_mode_env_concurrent:
  assumes "x = ''1'' \<or> strcasecmp x ''concurrent''"
  shows "parse_build_mode_env (Some x) d = 1"
proof -
  have ne: "x \<noteq> []"
    using assms by (auto simp: strcasecmp_def)
  have "\<not> strcasecmp ''1'' ''sequential''"
    by (simp add: strcasecmp_def)
  moreover have "\<not> strcasecmp x ''sequential''" if "strcasecmp x ''concurrent''"
    using that by (simp add: strcasecmp_def tolower_def)
  moreover have "x \<noteq> ''0''" if "strcasecmp x ''concurrent''"
    using that by (auto simp: strcasecmp_def)
  ultimately have "\<not> (x = ''0'' \<or> strcasecmp x ''sequential'')"
    using assms by auto
  then show ?thesis
    using assms ne by (simp add: parse_build_mode_env_def)
qed

lemma parse_build_mode_env_numeric:
  assumes "decimal_prefix x v"
  shows "parse_build_mode_env (Some x) d = (if v \<noteq> 0 then 1 else 0)"
proof -
  from strtol_decimal_prefix [OF assms] obtain k where
    k: "k \<noteq> 0" and st: "strtol x = (max LONG_MIN (min LONG_MAX v), k)"
    by blast
  have ne: "x \<noteq> []"
    using decimal_prefix_lead [OF assms] by simp
  have nseq: "\<not> strcasecmp x ''sequential''" and ncon: "\<not> strcasecmp x ''concurrent''"
    using assms sequential_no_decimal_prefix concurrent_no_decimal_prefix by blast+
  consider "x = ''0''" | "x = ''1''" | "x \<noteq> ''0''" "x \<noteq> ''1''"
    by blast
  then show ?thesis
  proof cases
    case 1
    then have "max LONG_MIN (min LONG_MAX v) = 0"
      using st strtol_0 by simp
    then have "v = 0"
      using saturate_nonzero [of v] by simp
    then show ?thesis
      using 1 by (simp add: parse_build_mode_env_sequential)
  next
    case 2
    then have "max LONG_MIN (min LONG_MAX v) = 1"
      using st strtol_1 by simp
    then have "v \<noteq> 0"
      using saturate_nonzero [of v] by simp
    then show ?thesis
      using 2 by (simp add: parse_build_mode_env_concurrent)
  next
    case 3
    then show ?thesis
      using ne nseq ncon k saturate_nonzero [of v]
      by (simp add: parse_build_mode_env_def st)
  qed
qed

lemma parse_build_mode_env_default:
  assumes "s = None \<or> s = Some []
           \<or> (\<exists>x. s = Some x \<and> (\<forall>v. \<not> decimal_prefix x v)
                  \<and> \<not> strcasecmp x ''sequential'' \<and> \<not> strcasecmp x ''concurrent'')"
  shows "parse_build_mode_env s d = d"
proof -
  consider "s = None" | "s = Some []"
    | x where "s = Some x" "\<forall>v. \<not> decimal_prefix x v"
        "\<not> strcasecmp x ''sequential''" "\<not> strcasecmp x ''concurrent''"
    using assms by blast
  then show ?thesis
  proof cases
    case 1
    then show ?thesis by (simp add: parse_build_mode_env_def)
  next
    case 2
    then show ?thesis by (simp add: parse_build_mode_env_def)
  next
    case 3
    have "snd (strtol x) = 0"
      using 3(2) strtol_end_decimal_prefix by blast
    then obtain v0 where "strtol x = (v0, 0)"
      by (cases "strtol x") simp
    moreover have "x \<noteq> ''0''" "x \<noteq> ''1''"
      using 3(2) strtol_end_decimal_prefix [of "''0''"] strtol_end_decimal_prefix [of "''1''"]
      by (auto simp: strtol_0 strtol_1)
    ultimately show ?thesis
      using 3 by (simp add: parse_build_mode_env_def)
  qed
qed

lemma parse_build_mode_env_range: "parse_build_mode_env s d \<in> {0, 1, d}"
  by (simp add: parse_build_mode_env_def split: option.splits prod.splits)

text \<open>
  C4. \<open>parse_build_mode_env\<close>, read as the ordered case analysis the function is: it
  returns 0 for \<open>"0"\<close> and for any spelling of \<open>sequential\<close> whatever the case of its
  letters, 1 for \<open>"1"\<close> and for any spelling of \<open>concurrent\<close>; for a string with a
  parseable decimal prefix it returns 1 when the value is nonzero and 0 when it is zero;
  it returns the default for a null string, for the empty string and for any other string
  with no parseable decimal prefix; and its result is always one of 0, 1 and the default.
\<close>

theorem parse_build_mode_env_cases:
  "(s = Some ''0'' \<or> (\<exists>x. s = Some x \<and> strcasecmp x ''sequential'')
       \<longrightarrow> parse_build_mode_env s d = 0)
   \<and> (s = Some ''1'' \<or> (\<exists>x. s = Some x \<and> strcasecmp x ''concurrent'')
       \<longrightarrow> parse_build_mode_env s d = 1)
   \<and> (\<forall>x v. s = Some x \<and> decimal_prefix x v
       \<longrightarrow> parse_build_mode_env s d = (if v \<noteq> 0 then 1 else 0))
   \<and> (s = None \<or> s = Some []
        \<or> (\<exists>x. s = Some x \<and> (\<forall>v. \<not> decimal_prefix x v)
               \<and> \<not> strcasecmp x ''sequential'' \<and> \<not> strcasecmp x ''concurrent'')
       \<longrightarrow> parse_build_mode_env s d = d)
   \<and> parse_build_mode_env s d \<in> {0, 1, d}"
proof (intro conjI impI allI)
  assume "s = Some ''0'' \<or> (\<exists>x. s = Some x \<and> strcasecmp x ''sequential'')"
  then show "parse_build_mode_env s d = 0"
    using parse_build_mode_env_sequential by blast
next
  assume "s = Some ''1'' \<or> (\<exists>x. s = Some x \<and> strcasecmp x ''concurrent'')"
  then show "parse_build_mode_env s d = 1"
    using parse_build_mode_env_concurrent by blast
next
  fix x v assume "s = Some x \<and> decimal_prefix x v"
  then show "parse_build_mode_env s d = (if v \<noteq> 0 then 1 else 0)"
    using parse_build_mode_env_numeric by blast
next
  assume "s = None \<or> s = Some []
        \<or> (\<exists>x. s = Some x \<and> (\<forall>v. \<not> decimal_prefix x v)
               \<and> \<not> strcasecmp x ''sequential'' \<and> \<not> strcasecmp x ''concurrent'')"
  then show "parse_build_mode_env s d = d"
    by (rule parse_build_mode_env_default)
next
  show "parse_build_mode_env s d \<in> {0, 1, d}"
    by (rule parse_build_mode_env_range)
qed

theorem parse_build_mode_env_cases_witness:
  "parse_build_mode_env (Some ''SeQuential'') 1 = 0
   \<and> parse_build_mode_env (Some ''CONCURRENT'') 0 = 1
   \<and> decimal_prefix '' -12abc'' (- 12) \<and> parse_build_mode_env (Some '' -12abc'') 0 = 1
   \<and> decimal_prefix ''+0'' 0 \<and> parse_build_mode_env (Some ''+0'') 1 = 0
   \<and> parse_build_mode_env (Some ''fast'') 7 = 7
   \<and> parse_build_mode_env None 7 = 7"
proof -
  have seq: "strcasecmp ''SeQuential'' ''sequential''"
    by (simp add: strcasecmp_def tolower_def char_of_eq_iff)
  have con: "strcasecmp ''CONCURRENT'' ''concurrent''"
    by (simp add: strcasecmp_def tolower_def char_of_eq_iff)
  have "'' -12abc'' = '' '' @ ''-'' @ ''12'' @ ''abc''
        \<and> (\<forall>c \<in> set '' ''. isspace c) \<and> (''-'' = [] \<or> ''-'' = ''-'' \<or> ''-'' = ''+'')
        \<and> ''12'' \<noteq> [] \<and> (\<forall>c \<in> set ''12''. isdigit c)
        \<and> (''abc'' = [] \<or> \<not> isdigit (hd ''abc''))
        \<and> (- 12 :: int) = (if ''-'' = ''-'' then - decimal_value ''12'' else decimal_value ''12'')"
    by (simp add: isspace_def isdigit_def decimal_value_def digit_value_def)
  then have neg: "decimal_prefix '' -12abc'' (- 12)"
    unfolding decimal_prefix_def by blast
  have "''+0'' = [] @ ''+'' @ ''0'' @ []
        \<and> (\<forall>c \<in> set []. isspace c) \<and> (''+'' = [] \<or> ''+'' = ''-'' \<or> ''+'' = ''+'')
        \<and> ''0'' \<noteq> [] \<and> (\<forall>c \<in> set ''0''. isdigit c)
        \<and> ([] = [] \<or> \<not> isdigit (hd []))
        \<and> (0 :: int) = (if ''+'' = ''-'' then - decimal_value ''0'' else decimal_value ''0'')"
    by (simp add: isspace_def isdigit_def decimal_value_def digit_value_def)
  then have zero: "decimal_prefix ''+0'' 0"
    unfolding decimal_prefix_def by blast
  have nopre: "\<forall>v. \<not> decimal_prefix ''fast'' v"
    using decimal_prefix_lead [of "''fast''"] by (auto simp: isspace_def isdigit_def)
  have nokey: "\<not> strcasecmp ''fast'' ''sequential''" "\<not> strcasecmp ''fast'' ''concurrent''"
    by (simp_all add: strcasecmp_def)
  have "parse_build_mode_env (Some ''SeQuential'') 1 = 0"
    using parse_build_mode_env_cases [of "Some ''SeQuential''" 1] seq by simp
  moreover have "parse_build_mode_env (Some ''CONCURRENT'') 0 = 1"
    using parse_build_mode_env_cases [of "Some ''CONCURRENT''" 0] con by simp
  moreover have "parse_build_mode_env (Some '' -12abc'') 0 = 1"
    using parse_build_mode_env_cases [of "Some '' -12abc''" 0] neg by fastforce
  moreover have "parse_build_mode_env (Some ''+0'') 1 = 0"
    using parse_build_mode_env_cases [of "Some ''+0''" 1] zero by fastforce
  moreover have "parse_build_mode_env (Some ''fast'') 7 = 7"
    using parse_build_mode_env_cases [of "Some ''fast''" 7] nopre nokey by simp
  moreover have "parse_build_mode_env None 7 = 7"
    using parse_build_mode_env_cases [of None 7] by simp
  ultimately show ?thesis
    using neg zero by (intro conjI)
qed

section \<open>Results: init\_runtime\_impl and validate\_runtime\_impl\<close>

text \<open>
  C7. A call of \<open>init_runtime_impl\<close> with \<open>func_args_count\<close> above
  \<open>RUNTIME_MAX_ORCH_ARGS\<close> returns -1 with the host exactly as it was (no call through
  the host API, so no allocation and no copy) and with \<open>orch_args\<close> unchanged.
\<close>

theorem init_runtime_impl_capacity:
  assumes "func_args_count > RUNTIME_MAX_ORCH_ARGS lim"
  shows "return_code (fst (init_runtime_impl lim api env runtime orch_so_binary orch_so_size
             orch_func_name func_args func_args_count arg_types arg_sizes h)) = -1
         \<and> snd (snd (init_runtime_impl lim api env runtime orch_so_binary orch_so_size
             orch_func_name func_args func_args_count arg_types arg_sizes h)) = h
         \<and> map_option orch_args (fst (snd (init_runtime_impl lim api env runtime orch_so_binary
             orch_so_size orch_func_name func_args func_args_count arg_types arg_sizes h)))
           = map_option orch_args runtime"
proof (cases runtime)
  case None
  then show ?thesis
    by (simp add: init_runtime_impl_def)
next
  case (Some rt)
  show ?thesis
  proof (cases "orch_so_binary = None \<or> orch_so_size = 0 \<or> orch_func_name = None")
    case True
    then show ?thesis
      using Some by (simp add: init_runtime_impl_def)
  next
    case False
    then show ?thesis
      using Some assms
      by (simp add: init_runtime_impl_def Let_def clear_device_allocs_def clear_tensor_pairs_def)
  qed
qed

theorem init_runtime_impl_capacity_witness:
  "RUNTIME_MAX_ORCH_ARGS example_limits < 17
   \<and> init_runtime_impl example_limits example_api None (Some (fresh_runtime [])) (Some [1, 2]) 2
        (Some ''orchestration'') (replicate 17 0) 17 None None \<lparr>device = 0, trace = []\<rparr>
      = (Some TooManyArgs, Some (fresh_runtime []), \<lparr>device = 0, trace = []\<rparr>)"
proof -
  have big: "RUNTIME_MAX_ORCH_ARGS example_limits < 17"
    by (simp add: example_limits_def)
  have run: "init_runtime_impl example_limits example_api None (Some (fresh_runtime [])) (Some [1, 2]) 2
        (Some ''orchestration'') (replicate 17 0) 17 None None \<lparr>device = 0, trace = []\<rparr>
      = (Some TooManyArgs, Some (fresh_runtime []), \<lparr>device = 0, trace = []\<rparr>)"
    using init_runtime_impl_capacity [OF big, of example_api None "Some (fresh_runtime [])"
        "Some [1, 2]" 2 "Some ''orchestration''" "replicate 17 0" None None "\<lparr>device = 0, trace = []\<rparr>"]
    by (simp add: init_runtime_impl_def example_limits_def fresh_runtime_def
        clear_device_allocs_def clear_tensor_pairs_def)
  from big run show ?thesis
    by (intro conjI)
qed

lemma marshal_loop_append:
  "marshal_loop api fa ats ass (xs @ ys) st =
     (case marshal_loop api fa ats ass xs st of
        (None, st') \<Rightarrow> marshal_loop api fa ats ass ys st'
      | (Some e, st') \<Rightarrow> (Some e, st'))"
  by (induction xs arbitrary: st) (simp_all split: prod.splits option.splits)

lemma marshal_loop_single:
  "marshal_loop api fa ats ass [i] st = marshal_arg api fa ats ass i st"
  by (simp split: prod.splits option.splits)

lemma marshal_loop_Suc:
  "marshal_loop api fa ats ass [0..<Suc k] st =
     (case marshal_loop api fa ats ass [0..<k] st of
        (None, st') \<Rightarrow> marshal_arg api fa ats ass k st'
      | (Some e, st') \<Rightarrow> (Some e, st'))"
  by (simp add: marshal_loop_append marshal_loop_single del: marshal_loop.simps
      split: prod.splits option.splits)

lemma marshal_arg_scalar:
  assumes "arg_type ats i = ARG_SCALAR"
  shows "marshal_arg api fa ats ass i (rt, h) =
           (None, rt\<lparr>orch_args := (orch_args rt)[i := fa ! i]\<rparr>, h)"
  using assms by (simp add: marshal_arg_def)

lemma marshal_arg_pointer:
  assumes "arg_type ats i \<noteq> ARG_SCALAR"
    and "call_device_malloc api h (arg_size ass i) = (p, h1)"
    and "(if arg_type ats i = ARG_INPUT_PTR \<or> arg_type ats i = ARG_INOUT_PTR
          then call_copy_to_device api h1 p (fa ! i) (arg_size ass i) else (0, h1)) = (rc, h2)"
  shows "marshal_arg api fa ats ass i (rt, h) =
     (if p = nullptr then (Some (MallocFailed i), rt, h1)
      else if rc \<noteq> 0 then (Some (CopyFailed i), record_device_alloc rt p, h2)
      else (None,
            (if arg_type ats i = ARG_OUTPUT_PTR \<or> arg_type ats i = ARG_INOUT_PTR
             then record_tensor_pair (record_device_alloc rt p) (fa ! i) p (arg_size ass i)
             else record_device_alloc rt p)
            \<lparr>orch_args := (orch_args rt)[i := p]\<rparr>, h2))"
  using assms(1)
  by (simp add: marshal_arg_def Let_def assms(2) assms(3) record_tensor_pair_def
      record_device_alloc_def)

lemma marshal_arg_calls:
  obtains p h1 rc h2 where
    "call_device_malloc api h (arg_size ass i) = (p, h1)"
    "(if arg_type ats i = ARG_INPUT_PTR \<or> arg_type ats i = ARG_INOUT_PTR
      then call_copy_to_device api h1 p (fa ! i) (arg_size ass i) else (0, h1)) = (rc, h2)"
    "trace h1 = trace h @ [DeviceMalloc (arg_size ass i) p]"
    "trace h2 = trace h1 @
       (if arg_type ats i = ARG_INPUT_PTR \<or> arg_type ats i = ARG_INOUT_PTR
        then [CopyToDevice p (fa ! i) (arg_size ass i) rc] else [])"
proof -
  obtain p h1 where 1: "call_device_malloc api h (arg_size ass i) = (p, h1)"
    by (cases "call_device_malloc api h (arg_size ass i)")
  obtain rc h2 where 2:
    "(if arg_type ats i = ARG_INPUT_PTR \<or> arg_type ats i = ARG_INOUT_PTR
      then call_copy_to_device api h1 p (fa ! i) (arg_size ass i) else (0, h1)) = (rc, h2)"
    by (cases "if arg_type ats i = ARG_INPUT_PTR \<or> arg_type ats i = ARG_INOUT_PTR
      then call_copy_to_device api h1 p (fa ! i) (arg_size ass i) else (0, h1)")
  have 3: "trace h1 = trace h @ [DeviceMalloc (arg_size ass i) p]"
    using 1 by (auto simp: call_device_malloc_def split: prod.splits)
  have 4: "trace h2 = trace h1 @
       (if arg_type ats i = ARG_INPUT_PTR \<or> arg_type ats i = ARG_INOUT_PTR
        then [CopyToDevice p (fa ! i) (arg_size ass i) rc] else [])"
    using 2 by (auto simp: call_copy_to_device_def split: prod.splits if_splits)
  from 1 2 3 4 that show thesis
    by blast
qed

lemma marshal_arg_pointer_ok:
  assumes "arg_type ats i \<noteq> ARG_SCALAR"
    and "marshal_arg api fa ats ass i (rt, h) = (None, rt', h')"
  shows "\<exists>p. p \<noteq> nullptr
           \<and> orch_args rt' = (orch_args rt)[i := p]
           \<and> orch_argc rt' = orch_argc rt
           \<and> device_allocs rt' = device_allocs rt @ [\<lparr>alloc_dev_ptr = p\<rparr>]
           \<and> tensor_pairs rt' = tensor_pairs rt @
                (if arg_type ats i = ARG_OUTPUT_PTR \<or> arg_type ats i = ARG_INOUT_PTR
                 then [\<lparr>host_ptr = fa ! i, dev_ptr = p, size_bytes = arg_size ass i\<rparr>] else [])
           \<and> trace h' = trace h @ DeviceMalloc (arg_size ass i) p #
                (if arg_type ats i = ARG_INPUT_PTR \<or> arg_type ats i = ARG_INOUT_PTR
                 then [CopyToDevice p (fa ! i) (arg_size ass i) 0] else [])"
proof -
  obtain p h1 rc h2 where
    c1: "call_device_malloc api h (arg_size ass i) = (p, h1)"
    and c2: "(if arg_type ats i = ARG_INPUT_PTR \<or> arg_type ats i = ARG_INOUT_PTR
      then call_copy_to_device api h1 p (fa ! i) (arg_size ass i) else (0, h1)) = (rc, h2)"
    and t1: "trace h1 = trace h @ [DeviceMalloc (arg_size ass i) p]"
    and t2: "trace h2 = trace h1 @
       (if arg_type ats i = ARG_INPUT_PTR \<or> arg_type ats i = ARG_INOUT_PTR
        then [CopyToDevice p (fa ! i) (arg_size ass i) rc] else [])"
    by (rule marshal_arg_calls)
  note eq = marshal_arg_pointer [OF assms(1) c1 c2, of rt]
  have nn: "p \<noteq> nullptr" and rc: "rc = 0"
    using assms(2) unfolding eq by (simp_all split: if_splits)
  have rt': "rt' = (if arg_type ats i = ARG_OUTPUT_PTR \<or> arg_type ats i = ARG_INOUT_PTR
             then record_tensor_pair (record_device_alloc rt p) (fa ! i) p (arg_size ass i)
             else record_device_alloc rt p)
            \<lparr>orch_args := (orch_args rt)[i := p]\<rparr>" and h': "h' = h2"
    using assms(2) nn rc unfolding eq by simp_all
  have "trace h' = trace h @ DeviceMalloc (arg_size ass i) p #
                (if arg_type ats i = ARG_INPUT_PTR \<or> arg_type ats i = ARG_INOUT_PTR
                 then [CopyToDevice p (fa ! i) (arg_size ass i) 0] else [])"
    using t1 t2 rc h' by simp
  then show ?thesis
    using nn by (intro exI [of _ p]) (simp add: rt' record_tensor_pair_def record_device_alloc_def)
qed

lemma marshal_arg_fails:
  assumes "marshal_arg api fa ats ass i (rt, h) = (Some e, rt', h')"
  shows "arg_type ats i \<noteq> ARG_SCALAR \<and> (e = MallocFailed i \<or> e = CopyFailed i)
         \<and> orch_args rt' = orch_args rt \<and> orch_argc rt' = orch_argc rt
         \<and> tensor_pairs rt' = tensor_pairs rt
         \<and> (\<exists>evs. trace h' = trace h @ evs \<and> freed evs = []
               \<and> device_allocs rt' = device_allocs rt @ map (\<lambda>p. \<lparr>alloc_dev_ptr = p\<rparr>) (allocated evs))"
proof -
  have ptr: "arg_type ats i \<noteq> ARG_SCALAR"
    using assms by (auto simp: marshal_arg_scalar)
  obtain p h1 rc h2 where
    c1: "call_device_malloc api h (arg_size ass i) = (p, h1)"
    and c2: "(if arg_type ats i = ARG_INPUT_PTR \<or> arg_type ats i = ARG_INOUT_PTR
      then call_copy_to_device api h1 p (fa ! i) (arg_size ass i) else (0, h1)) = (rc, h2)"
    and t1: "trace h1 = trace h @ [DeviceMalloc (arg_size ass i) p]"
    and t2: "trace h2 = trace h1 @
       (if arg_type ats i = ARG_INPUT_PTR \<or> arg_type ats i = ARG_INOUT_PTR
        then [CopyToDevice p (fa ! i) (arg_size ass i) rc] else [])"
    by (rule marshal_arg_calls)
  note eq = marshal_arg_pointer [OF ptr c1 c2, of rt]
  show ?thesis
  proof (cases "p = nullptr")
    case True
    then have "e = MallocFailed i" "rt' = rt" "h' = h1"
      using assms unfolding eq by simp_all
    then show ?thesis
      using ptr t1 True by simp
  next
    case False
    then have "e = CopyFailed i" "rt' = record_device_alloc rt p" "h' = h2"
      using assms unfolding eq by (simp_all split: if_splits)
    then show ?thesis
      using ptr t1 t2 False by (simp add: record_device_alloc_def)
  qed
qed


lemma expected_allocs_cong:
  assumes "\<forall>j < k. oa' ! j = oa ! j"
  shows "expected_allocs ats oa' k = expected_allocs ats oa k"
  unfolding expected_allocs_def using assms by (intro map_cong) auto

lemma expected_pairs_cong:
  assumes "\<forall>j < k. oa' ! j = oa ! j"
  shows "expected_pairs fa ats ass oa' k = expected_pairs fa ats ass oa k"
  unfolding expected_pairs_def using assms by (intro map_cong) auto

lemma expected_events_cong:
  assumes "\<forall>j < k. oa' ! j = oa ! j"
  shows "map (expected_events fa ats ass oa') [0..<k] = map (expected_events fa ats ass oa) [0..<k]"
  using assms by (intro map_cong) (auto simp: expected_events_def)

lemma expected_allocs_Suc:
  "expected_allocs ats oa (Suc k) =
     expected_allocs ats oa k @
       (if arg_type ats k \<noteq> ARG_SCALAR then [\<lparr>alloc_dev_ptr = oa ! k\<rparr>] else [])"
  by (simp add: expected_allocs_def)

lemma expected_pairs_Suc:
  "expected_pairs fa ats ass oa (Suc k) =
     expected_pairs fa ats ass oa k @
       (if arg_type ats k = ARG_OUTPUT_PTR \<or> arg_type ats k = ARG_INOUT_PTR
        then [\<lparr>host_ptr = fa ! k, dev_ptr = oa ! k, size_bytes = arg_size ass k\<rparr>] else [])"
  by (simp add: expected_pairs_def)

lemma marshalled_step:
  assumes inv: "marshalled fa ats ass k rt0 h0 rt h"
    and k: "k < length (orch_args rt0)"
    and step: "marshal_arg api fa ats ass k (rt, h) = (None, rt', h')"
  shows "marshalled fa ats ass (Suc k) rt0 h0 rt' h'"
proof -
  have len: "length (orch_args rt) = length (orch_args rt0)"
    using inv by (simp add: marshalled_def)
  have "\<exists>p. orch_args rt' = (orch_args rt)[k := p]
           \<and> (if arg_type ats k = ARG_SCALAR then p = fa ! k else p \<noteq> nullptr)
           \<and> orch_argc rt' = orch_argc rt
           \<and> device_allocs rt' = device_allocs rt @
                (if arg_type ats k \<noteq> ARG_SCALAR then [\<lparr>alloc_dev_ptr = p\<rparr>] else [])
           \<and> tensor_pairs rt' = tensor_pairs rt @
                (if arg_type ats k = ARG_OUTPUT_PTR \<or> arg_type ats k = ARG_INOUT_PTR
                 then [\<lparr>host_ptr = fa ! k, dev_ptr = p, size_bytes = arg_size ass k\<rparr>] else [])
           \<and> trace h' = trace h @
                (if arg_type ats k = ARG_SCALAR then []
                 else DeviceMalloc (arg_size ass k) p #
                   (if arg_type ats k = ARG_INPUT_PTR \<or> arg_type ats k = ARG_INOUT_PTR
                    then [CopyToDevice p (fa ! k) (arg_size ass k) 0] else []))"
  proof (cases "arg_type ats k = ARG_SCALAR")
    case True
    then have "rt' = rt\<lparr>orch_args := (orch_args rt)[k := fa ! k]\<rparr>" "h' = h"
      using step by (simp_all add: marshal_arg_scalar)
    then show ?thesis
      using True by (intro exI [of _ "fa ! k"]) (simp add: ARG_SCALAR_def ARG_OUTPUT_PTR_def ARG_INOUT_PTR_def)
  next
    case False
    from marshal_arg_pointer_ok [OF False step] show ?thesis
      using False by auto
  qed
  then obtain p where
    oa: "orch_args rt' = (orch_args rt)[k := p]"
    and p: "if arg_type ats k = ARG_SCALAR then p = fa ! k else p \<noteq> nullptr"
    and argc: "orch_argc rt' = orch_argc rt"
    and da: "device_allocs rt' = device_allocs rt @
                (if arg_type ats k \<noteq> ARG_SCALAR then [\<lparr>alloc_dev_ptr = p\<rparr>] else [])"
    and tp: "tensor_pairs rt' = tensor_pairs rt @
                (if arg_type ats k = ARG_OUTPUT_PTR \<or> arg_type ats k = ARG_INOUT_PTR
                 then [\<lparr>host_ptr = fa ! k, dev_ptr = p, size_bytes = arg_size ass k\<rparr>] else [])"
    and tr: "trace h' = trace h @
                (if arg_type ats k = ARG_SCALAR then []
                 else DeviceMalloc (arg_size ass k) p #
                   (if arg_type ats k = ARG_INPUT_PTR \<or> arg_type ats k = ARG_INOUT_PTR
                    then [CopyToDevice p (fa ! k) (arg_size ass k) 0] else []))"
    by blast
  have at_k: "orch_args rt' ! k = p"
    using k len by (simp add: oa)
  have below: "\<forall>j < k. orch_args rt' ! j = orch_args rt ! j"
    by (simp add: oa)
  have ev_k: "expected_events fa ats ass (orch_args rt') k =
                (if arg_type ats k = ARG_SCALAR then []
                 else DeviceMalloc (arg_size ass k) p #
                   (if arg_type ats k = ARG_INPUT_PTR \<or> arg_type ats k = ARG_INOUT_PTR
                    then [CopyToDevice p (fa ! k) (arg_size ass k) 0] else []))"
    by (simp add: expected_events_def at_k)
  have 1: "length (orch_args rt') = length (orch_args rt0)"
    by (simp add: oa len)
  have 2: "orch_argc rt' = orch_argc rt0"
    using inv argc by (simp add: marshalled_def)
  have 3: "device_allocs rt' = device_allocs rt0 @ expected_allocs ats (orch_args rt') (Suc k)"
    using inv da by (simp add: marshalled_def expected_allocs_Suc at_k expected_allocs_cong [OF below])
  have 4: "tensor_pairs rt' = tensor_pairs rt0
             @ expected_pairs fa ats ass (orch_args rt') (Suc k)"
    using inv tp by (simp add: marshalled_def expected_pairs_Suc at_k expected_pairs_cong [OF below])
  have 5: "trace h' = trace h0
             @ concat (map (expected_events fa ats ass (orch_args rt')) [0..<Suc k])"
    using inv tr by (simp add: marshalled_def ev_k expected_events_cong [OF below])
  have 6: "\<forall>i < Suc k. if arg_type ats i = ARG_SCALAR then orch_args rt' ! i = fa ! i
                   else orch_args rt' ! i \<noteq> nullptr"
  proof (intro allI impI)
    fix i assume "i < Suc k"
    then consider "i < k" | "i = k"
      by linarith
    then show "if arg_type ats i = ARG_SCALAR then orch_args rt' ! i = fa ! i
                   else orch_args rt' ! i \<noteq> nullptr"
    proof cases
      case 1
      then show ?thesis
        using inv below by (simp add: marshalled_def)
    next
      case 2
      then show ?thesis
        using p at_k by simp
    qed
  qed
  from 1 2 3 4 5 6 show ?thesis
    unfolding marshalled_def by blast
qed

lemma marshal_loop_marshalled:
  assumes "marshal_loop api fa ats ass [0..<k] (rt0, h0) = (None, rt, h)"
    and "k \<le> length (orch_args rt0)"
  shows "marshalled fa ats ass k rt0 h0 rt h"
  using assms
proof (induction k arbitrary: rt h)
  case 0
  then show ?case
    by (simp add: marshalled_def expected_allocs_def expected_pairs_def)
next
  case (Suc k)
  obtain r rtk hk where prev: "marshal_loop api fa ats ass [0..<k] (rt0, h0) = (r, rtk, hk)"
    by (cases "marshal_loop api fa ats ass [0..<k] (rt0, h0)")
  have r: "r = None"
    using Suc.prems(1) unfolding marshal_loop_Suc prev by (cases r) simp_all
  have step: "marshal_arg api fa ats ass k (rtk, hk) = (None, rt, h)"
    using Suc.prems(1) unfolding marshal_loop_Suc prev r by simp
  have "marshalled fa ats ass k rt0 h0 rtk hk"
    using Suc.IH prev r Suc.prems(2) by simp
  then show ?case
    using Suc.prems(2) step by (intro marshalled_step) simp_all
qed

lemma marshal_loop_fails:
  assumes "marshal_loop api fa ats ass [0..<n] st = (Some e, rt', h')"
  shows "\<exists>k < n. \<exists>rt h. marshal_loop api fa ats ass [0..<k] st = (None, rt, h)
           \<and> marshal_arg api fa ats ass k (rt, h) = (Some e, rt', h')"
  using assms
proof (induction n)
  case 0
  then show ?case by simp
next
  case (Suc n)
  obtain r rtn hn where prev: "marshal_loop api fa ats ass [0..<n] st = (r, rtn, hn)"
    by (cases "marshal_loop api fa ats ass [0..<n] st")
  show ?case
  proof (cases r)
    case None
    then have "marshal_arg api fa ats ass n (rtn, hn) = (Some e, rt', h')"
      using Suc.prems unfolding marshal_loop_Suc prev by simp
    then show ?thesis
      using prev None by blast
  next
    case (Some e')
    then have "marshal_loop api fa ats ass [0..<n] st = (Some e, rt', h')"
      using Suc.prems unfolding marshal_loop_Suc prev by simp
    from Suc.IH [OF this] show ?thesis
      using less_Suc_eq by blast
  qed
qed


lemma init_runtime_impl_loop:
  assumes "init_runtime_impl lim api env (Some rt) orch_so_binary orch_so_size orch_func_name
             func_args func_args_count arg_types arg_sizes h = (e, rt', h')"
    and "e \<noteq> Some InvalidOrchestration" and "e \<noteq> Some TooManyArgs"
  obtains r rt1 where
    "func_args_count \<le> RUNTIME_MAX_ORCH_ARGS lim"
    "marshal_loop api func_args arg_types arg_sizes [0..<nat func_args_count]
       (clear_device_allocs (clear_tensor_pairs rt), h) = (r, rt1, h')"
    "r = None \<longrightarrow> (e = None \<or> e = Some OrchSoTooLarge)"
    "r \<noteq> None \<longrightarrow> e = r \<and> rt' = Some rt1"
    "\<exists>rt2. rt' = Some rt2 \<and> orch_args rt2 = orch_args rt1 \<and> tensor_pairs rt2 = tensor_pairs rt1
        \<and> device_allocs rt2 = device_allocs rt1
        \<and> (r = None \<longrightarrow> orch_argc rt2 = func_args_count)
        \<and> (r \<noteq> None \<longrightarrow> orch_argc rt2 = orch_argc rt1)"
proof -
  have valid: "\<not> (orch_so_binary = None \<or> orch_so_size = 0 \<or> orch_func_name = None)"
  proof
    assume "orch_so_binary = None \<or> orch_so_size = 0 \<or> orch_func_name = None"
    then have "init_runtime_impl lim api env (Some rt) orch_so_binary orch_so_size orch_func_name
             func_args func_args_count arg_types arg_sizes h = (Some InvalidOrchestration, Some rt, h)"
      by (simp add: init_runtime_impl_def)
    then show False
      using assms(1,2) by simp
  qed
  have cap: "func_args_count \<le> RUNTIME_MAX_ORCH_ARGS lim"
  proof (rule ccontr)
    assume "\<not> func_args_count \<le> RUNTIME_MAX_ORCH_ARGS lim"
    then have "fst (init_runtime_impl lim api env (Some rt) orch_so_binary orch_so_size orch_func_name
             func_args func_args_count arg_types arg_sizes h) = Some TooManyArgs"
      using valid by (simp add: init_runtime_impl_def Let_def)
    then show False
      using assms(1,3) by simp
  qed
  obtain r rt1 h1 where loop:
    "marshal_loop api func_args arg_types arg_sizes [0..<nat func_args_count]
       (clear_device_allocs (clear_tensor_pairs rt), h) = (r, rt1, h1)"
    by (cases "marshal_loop api func_args arg_types arg_sizes [0..<nat func_args_count]
       (clear_device_allocs (clear_tensor_pairs rt), h)")
  have eq: "init_runtime_impl lim api env (Some rt) orch_so_binary orch_so_size orch_func_name
             func_args func_args_count arg_types arg_sizes h =
     (case r of
        Some e' \<Rightarrow> (Some e', Some rt1, h1)
      | None \<Rightarrow>
          if orch_so_size > RUNTIME_MAX_AICPU_ORCH_SO_SIZE lim
          then (Some OrchSoTooLarge, Some (rt1\<lparr>orch_argc := func_args_count\<rparr>), h1)
          else (None,
                Some (rt1\<lparr>orch_argc := func_args_count,
                          aicpu_orch_so := take orch_so_size (the orch_so_binary),
                          aicpu_orch_func_name :=
                            take (RUNTIME_MAX_ORCH_FUNC_NAME lim - 1) (the orch_func_name),
                          build_mode := parse_build_mode_env env (build_mode rt1)\<rparr>), h1))"
    using valid cap
    by (auto simp: init_runtime_impl_def Let_def loop try_set_aicpu_orch_so_def
        split: option.splits)
  note res = assms(1) [unfolded eq]
  show thesis
  proof (cases r)
    case (Some e')
    then have "e = r" "rt' = Some rt1" "h' = h1"
      using res by simp_all
    then show ?thesis
      using that [of r rt1] cap loop Some by simp
  next
    case None
    show ?thesis
    proof (cases "orch_so_size > RUNTIME_MAX_AICPU_ORCH_SO_SIZE lim")
      case True
      then have "e = Some OrchSoTooLarge" "rt' = Some (rt1\<lparr>orch_argc := func_args_count\<rparr>)" "h' = h1"
        using res None by simp_all
      then show ?thesis
        using that [of r rt1] cap loop None by simp
    next
      case False
      then have "e = None" "h' = h1"
        "\<exists>rt2. rt' = Some rt2 \<and> orch_args rt2 = orch_args rt1 \<and> tensor_pairs rt2 = tensor_pairs rt1
        \<and> device_allocs rt2 = device_allocs rt1 \<and> orch_argc rt2 = func_args_count"
        using res None by auto
      then show ?thesis
        using that [of r rt1] cap loop None by simp
    qed
  qed
qed

lemma host_run_append:
  "host_run api d (xs @ ys) =
     (case host_run api d xs of None \<Rightarrow> None | Some d' \<Rightarrow> host_run api d' ys)"
  by (induction api d xs rule: host_run.induct) (simp_all split: prod.splits)

lemma faithful_iff:
  "faithful api h h' \<longleftrightarrow>
     (\<exists>evs. trace h' = trace h @ evs \<and> host_run api (device h) evs = Some (device h'))"
proof
  assume "faithful api h h'"
  then have "trace h' = trace h @ drop (length (trace h)) (trace h')"
    and "host_run api (device h) (drop (length (trace h)) (trace h')) = Some (device h')"
    unfolding faithful_def by (metis append_take_drop_id, simp)
  then show "\<exists>evs. trace h' = trace h @ evs \<and> host_run api (device h) evs = Some (device h')"
    by blast
next
  assume "\<exists>evs. trace h' = trace h @ evs \<and> host_run api (device h) evs = Some (device h')"
  then show "faithful api h h'"
    unfolding faithful_def by auto
qed

lemma faithful_trace:
  assumes "faithful api h h'" and "trace h' = trace h @ evs"
  shows "host_run api (device h) evs = Some (device h')"
  using assms unfolding faithful_def by simp

lemma faithful_refl: "faithful api h h"
  by (simp add: faithful_def)

lemma faithful_trans:
  assumes "faithful api h h1" and "faithful api h1 h2"
  shows "faithful api h h2"
proof -
  from assms obtain xs ys where
    "trace h1 = trace h @ xs" "host_run api (device h) xs = Some (device h1)"
    "trace h2 = trace h1 @ ys" "host_run api (device h1) ys = Some (device h2)"
    unfolding faithful_iff by blast
  then have "trace h2 = trace h @ (xs @ ys)"
    and "host_run api (device h) (xs @ ys) = Some (device h2)"
    by (simp_all add: host_run_append)
  then show ?thesis
    unfolding faithful_iff by blast
qed

lemma call_device_malloc_faithful:
  assumes "call_device_malloc api h n = (p, h')"
  shows "faithful api h h'"
  using assms by (auto simp: call_device_malloc_def faithful_def split: prod.splits)

lemma call_device_free_faithful: "faithful api h (call_device_free api h p)"
  by (simp add: call_device_free_def faithful_def)

lemma call_copy_to_device_faithful:
  assumes "call_copy_to_device api h dev host n = (rc, h')"
  shows "faithful api h h'"
  using assms by (auto simp: call_copy_to_device_def faithful_def split: prod.splits)

lemma call_copy_from_device_faithful:
  assumes "call_copy_from_device api h host dev n = (rc, h')"
  shows "faithful api h h'"
  using assms by (auto simp: call_copy_from_device_def faithful_def split: prod.splits)

lemma marshal_arg_faithful:
  assumes "marshal_arg api fa ats ass i (rt, h) = (r, rt', h')"
  shows "faithful api h h'"
proof (cases "arg_type ats i = ARG_SCALAR")
  case True
  then have "h' = h"
    using assms by (simp add: marshal_arg_scalar)
  then show ?thesis
    by (simp add: faithful_refl)
next
  case False
  obtain p h1 rc h2 where
    c1: "call_device_malloc api h (arg_size ass i) = (p, h1)"
    and c2: "(if arg_type ats i = ARG_INPUT_PTR \<or> arg_type ats i = ARG_INOUT_PTR
      then call_copy_to_device api h1 p (fa ! i) (arg_size ass i) else (0, h1)) = (rc, h2)"
    by (rule marshal_arg_calls)
  note eq = marshal_arg_pointer [OF False c1 c2, of rt]
  have f1: "faithful api h h1"
    using c1 by (rule call_device_malloc_faithful)
  have "faithful api h1 h2"
    using c2 by (auto simp: faithful_refl call_copy_to_device_faithful split: if_splits)
  with f1 have f2: "faithful api h h2"
    by (rule faithful_trans)
  have "h' = h1 \<or> h' = h2"
    using assms unfolding eq by (auto split: if_splits)
  then show ?thesis
    using f1 f2 by auto
qed

lemma marshal_loop_faithful:
  assumes "marshal_loop api fa ats ass is (rt, h) = (r, rt', h')"
  shows "faithful api h h'"
  using assms
proof (induction "is" arbitrary: rt h)
  case Nil
  then show ?case
    by (simp add: faithful_refl)
next
  case (Cons i "is")
  obtain r1 rt1 h1 where step: "marshal_arg api fa ats ass i (rt, h) = (r1, rt1, h1)"
    by (cases "marshal_arg api fa ats ass i (rt, h)")
  have f1: "faithful api h h1"
    using step by (rule marshal_arg_faithful)
  show ?case
  proof (cases r1)
    case None
    then have "marshal_loop api fa ats ass is (rt1, h1) = (r, rt', h')"
      using Cons.prems by (simp add: step)
    then have "faithful api h1 h'"
      by (rule Cons.IH)
    with f1 show ?thesis
      by (rule faithful_trans)
  next
    case (Some e)
    then have "h' = h1"
      using Cons.prems by (simp add: step)
    then show ?thesis
      using f1 by simp
  qed
qed

lemma copy_back_faithful:
  assumes "copy_back api pairs (rc, h) = (rc', h')"
  shows "faithful api h h'"
  using assms
proof (induction pairs arbitrary: rc h)
  case Nil
  then show ?case
    by (simp add: faithful_refl)
next
  case (Cons pair pairs)
  obtain c h1 where call:
    "call_copy_from_device api h (host_ptr pair) (dev_ptr pair) (size_bytes pair) = (c, h1)"
    by (cases "call_copy_from_device api h (host_ptr pair) (dev_ptr pair) (size_bytes pair)")
  have f1: "faithful api h h1"
    using call by (rule call_copy_from_device_faithful)
  have "copy_back api pairs (if c \<noteq> 0 then c else rc, h1) = (rc', h')"
    using Cons.prems by (simp add: call)
  then have "faithful api h1 h'"
    by (rule Cons.IH)
  with f1 show ?case
    by (rule faithful_trans)
qed

lemma free_device_allocs_faithful: "faithful api h (free_device_allocs api allocs h)"
proof (induction allocs arbitrary: h)
  case Nil
  then show ?case
    by (simp add: faithful_refl)
next
  case (Cons a allocs)
  show ?case
  proof (cases "alloc_dev_ptr a = nullptr")
    case True
    then show ?thesis
      using Cons.IH by simp
  next
    case False
    have "faithful api h (free_device_allocs api allocs (call_device_free api h (alloc_dev_ptr a)))"
      using call_device_free_faithful Cons.IH by (rule faithful_trans)
    then show ?thesis
      using False by simp
  qed
qed

lemma free_tensor_pairs_faithful: "faithful api h (free_tensor_pairs api allocs pairs h)"
proof (induction pairs arbitrary: h)
  case Nil
  then show ?case
    by (simp add: faithful_refl)
next
  case (Cons pair pairs)
  show ?case
  proof (cases "dev_ptr pair = nullptr \<or> is_recorded_alloc allocs (dev_ptr pair)")
    case True
    then show ?thesis
      using Cons.IH by auto
  next
    case False
    have "faithful api h (free_tensor_pairs api allocs pairs (call_device_free api h (dev_ptr pair)))"
      using call_device_free_faithful Cons.IH by (rule faithful_trans)
    then show ?thesis
      using False by simp
  qed
qed

lemma validate_runtime_impl_faithful:
  assumes "validate_runtime_impl api (Some rt) h = (rc, rt', h')"
  shows "faithful api h h'"
proof -
  obtain rc1 h1 where cb: "copy_back api (tensor_pairs rt) (0, h) = (rc1, h1)"
    by (cases "copy_back api (tensor_pairs rt) (0, h)")
  have f1: "faithful api h h1"
    using cb by (rule copy_back_faithful)
  have h': "h' = free_tensor_pairs api (device_allocs rt) (tensor_pairs rt)
               (free_device_allocs api (device_allocs rt) h1)"
    using assms by (simp add: validate_runtime_impl_def cb Let_def)
  have "faithful api h1 h'"
    unfolding h' using free_device_allocs_faithful free_tensor_pairs_faithful
    by (rule faithful_trans)
  with f1 show ?thesis
    by (rule faithful_trans)
qed

text \<open>
  C5. When the marshalling of \<open>init_runtime_impl\<close> succeeds (the call returns 0, or fails
  only later on the size of the plugin), then for every argument index below
  \<open>func_args_count\<close>: a scalar argument is passed by value in \<open>orch_args\<close>, and a pointer
  argument has a non-null device address there. The host API calls made are, argument by
  argument and in order: none for a scalar; for a pointer argument one \<open>device_malloc\<close>
  of \<open>arg_sizes[i]\<close> bytes whose result is \<open>orch_args[i]\<close>, followed by one successful
  \<open>copy_to_device\<close> of \<open>arg_sizes[i]\<close> bytes from \<open>func_args[i]\<close> to that address exactly
  when the type is input or in/out. These calls are made through the host API table,
  each on the device state that the previous one left: replaying them from the initial
  device state returns the recorded results and ends in the device state that
  \<open>init_runtime_impl\<close> leaves. The device allocation records are those of the pointer
  arguments, and the tensor pairs those of the output and in/out arguments.
\<close>

theorem init_runtime_impl_marshals:
  assumes "init_runtime_impl lim api env (Some rt) orch_so_binary orch_so_size orch_func_name
             func_args func_args_count arg_types arg_sizes h = (e, Some rt', h')"
    and "e = None \<or> e = Some OrchSoTooLarge"
    and "length (orch_args rt) = nat (RUNTIME_MAX_ORCH_ARGS lim)"
  shows "(\<forall>i < nat func_args_count.
            if arg_type arg_types i = ARG_SCALAR then orch_args rt' ! i = func_args ! i
            else orch_args rt' ! i \<noteq> nullptr)
         \<and> trace h' = trace h @ concat (map (expected_events func_args arg_types arg_sizes
                                             (orch_args rt')) [0..<nat func_args_count])
         \<and> host_run api (device h)
             (concat (map (expected_events func_args arg_types arg_sizes (orch_args rt'))
                        [0..<nat func_args_count])) = Some (device h')
         \<and> device_allocs rt' = expected_allocs arg_types (orch_args rt') (nat func_args_count)
         \<and> tensor_pairs rt' = expected_pairs func_args arg_types arg_sizes (orch_args rt')
                                 (nat func_args_count)"
proof -
  let ?rt0 = "clear_device_allocs (clear_tensor_pairs rt)"
  from assms(2) have ne: "e \<noteq> Some InvalidOrchestration" "e \<noteq> Some TooManyArgs"
    by auto
  from init_runtime_impl_loop [OF assms(1) ne] obtain r rt1 where
    cap: "func_args_count \<le> RUNTIME_MAX_ORCH_ARGS lim"
    and loop: "marshal_loop api func_args arg_types arg_sizes [0..<nat func_args_count] (?rt0, h)
                 = (r, rt1, h')"
    and fail: "r \<noteq> None \<longrightarrow> e = r \<and> Some rt' = Some rt1"
    and same: "\<exists>rt2. Some rt' = Some rt2 \<and> orch_args rt2 = orch_args rt1
        \<and> tensor_pairs rt2 = tensor_pairs rt1 \<and> device_allocs rt2 = device_allocs rt1
        \<and> (r = None \<longrightarrow> orch_argc rt2 = func_args_count)
        \<and> (r \<noteq> None \<longrightarrow> orch_argc rt2 = orch_argc rt1)"
    by metis
  have r: "r = None"
  proof (rule ccontr)
    assume "r \<noteq> None"
    then obtain e' where e': "r = Some e'" "e = Some e'"
      using fail by auto
    from marshal_loop_fails [OF loop [unfolded e'(1)]] obtain k rtk hk where
      "marshal_arg api func_args arg_types arg_sizes k (rtk, hk) = (Some e', rt1, h')"
      by blast
    from marshal_arg_fails [OF this] have "e' = MallocFailed k \<or> e' = CopyFailed k"
      by simp
    then show False
      using assms(2) e'(2) by auto
  qed
  have "nat func_args_count \<le> length (orch_args ?rt0)"
    using cap assms(3) by (simp add: clear_device_allocs_def clear_tensor_pairs_def)
  from marshal_loop_marshalled [OF loop [unfolded r] this]
  have inv: "marshalled func_args arg_types arg_sizes (nat func_args_count) ?rt0 h rt1 h'" .
  have oa: "orch_args rt' = orch_args rt1"
    using same by simp
  have tr: "trace h' = trace h @ concat (map (expected_events func_args arg_types arg_sizes
                                             (orch_args rt')) [0..<nat func_args_count])"
    using inv by (simp add: marshalled_def oa)
  have run: "host_run api (device h)
             (concat (map (expected_events func_args arg_types arg_sizes (orch_args rt'))
                        [0..<nat func_args_count])) = Some (device h')"
    using marshal_loop_faithful [OF loop] tr by (rule faithful_trace)
  from inv same run show ?thesis
    by (simp add: marshalled_def clear_device_allocs_def clear_tensor_pairs_def)
qed

lemma example_copying:
  "init_runtime_impl example_limits copying_api None (Some (fresh_runtime [])) (Some [1, 2]) 2
     (Some ''orchestration'') [7, 256, 512, 768] 4 (Some [0, 1, 2, 3]) (Some [0, 16, 32, 64])
     \<lparr>device = (0, []), trace = []\<rparr>
   = (None, Some example_marshalled, example_copied_host)"
  by (simp add: example_marshalled_def example_copied_host_def init_runtime_impl_def example_limits_def copying_api_def fresh_runtime_def
      clear_device_allocs_def clear_tensor_pairs_def upt_rec marshal_arg_def arg_type_def
      arg_size_def ARG_SCALAR_def ARG_INPUT_PTR_def ARG_OUTPUT_PTR_def ARG_INOUT_PTR_def
      call_device_malloc_def call_copy_to_device_def record_device_alloc_def
      record_tensor_pair_def nullptr_def try_set_aicpu_orch_so_def parse_build_mode_env_def
      Let_def)

theorem init_runtime_impl_marshals_witness:
  "init_runtime_impl example_limits copying_api None (Some (fresh_runtime [])) (Some [1, 2]) 2
     (Some ''orchestration'') [7, 256, 512, 768] 4 (Some [0, 1, 2, 3]) (Some [0, 16, 32, 64])
     \<lparr>device = (0, []), trace = []\<rparr>
   = (None, Some example_marshalled, example_copied_host)
   \<and> orch_args example_marshalled = [7, 4096, 8192, 12288, 0, 0, 0, 0, 0, 0, 0, 0, 0, 0, 0, 0]
   \<and> trace example_copied_host
       = [DeviceMalloc 16 4096, CopyToDevice 4096 256 16 0, DeviceMalloc 32 8192,
          DeviceMalloc 64 12288, CopyToDevice 12288 768 64 0]
   \<and> host_run copying_api (0, []) (trace example_copied_host)
       = Some (device example_copied_host)
   \<and> device example_copied_host = (3, [(4096, 256, 16), (12288, 768, 64)])
   \<and> device_allocs example_marshalled
       = expected_allocs (Some [0, 1, 2, 3]) (orch_args example_marshalled) (nat 4)
   \<and> expected_allocs (Some [0, 1, 2, 3]) (orch_args example_marshalled) (nat 4)
       = [\<lparr>alloc_dev_ptr = 4096\<rparr>, \<lparr>alloc_dev_ptr = 8192\<rparr>, \<lparr>alloc_dev_ptr = 12288\<rparr>]
   \<and> tensor_pairs example_marshalled
       = expected_pairs [7, 256, 512, 768] (Some [0, 1, 2, 3]) (Some [0, 16, 32, 64])
           (orch_args example_marshalled) (nat 4)
   \<and> expected_pairs [7, 256, 512, 768] (Some [0, 1, 2, 3]) (Some [0, 16, 32, 64])
           (orch_args example_marshalled) (nat 4)
       = [\<lparr>host_ptr = 512, dev_ptr = 8192, size_bytes = 32\<rparr>,
          \<lparr>host_ptr = 768, dev_ptr = 12288, size_bytes = 64\<rparr>]"
proof -
  have len: "length (orch_args (fresh_runtime [])) = nat (RUNTIME_MAX_ORCH_ARGS example_limits)"
    by (simp add: fresh_runtime_def example_limits_def)
  have ok: "(None :: init_error option) = None \<or> (None :: init_error option) = Some OrchSoTooLarge"
    by simp
  note facts = init_runtime_impl_marshals [OF example_copying ok len]
  from facts
  have allocs: "device_allocs example_marshalled
       = expected_allocs (Some [0, 1, 2, 3]) (orch_args example_marshalled) (nat 4)"
    and pairs: "tensor_pairs example_marshalled
       = expected_pairs [7, 256, 512, 768] (Some [0, 1, 2, 3]) (Some [0, 16, 32, 64])
           (orch_args example_marshalled) (nat 4)"
    by blast+
  from facts
  have tr0: "trace example_copied_host = trace \<lparr>device = (0 :: nat, [] :: (u64 \<times> u64 \<times> u64) list), trace = []\<rparr>
       @ concat (map (expected_events [7, 256, 512, 768] (Some [0, 1, 2, 3]) (Some [0, 16, 32, 64])
           (orch_args example_marshalled)) [0..<nat 4])"
    and run0: "host_run copying_api (device \<lparr>device = (0 :: nat, [] :: (u64 \<times> u64 \<times> u64) list), trace = []\<rparr>)
       (concat (map (expected_events [7, 256, 512, 768] (Some [0, 1, 2, 3]) (Some [0, 16, 32, 64])
           (orch_args example_marshalled)) [0..<nat 4])) = Some (device example_copied_host)"
    by blast+
  have run: "host_run copying_api (0, []) (trace example_copied_host)
       = Some (device example_copied_host)"
    using run0 unfolding tr0 by simp
  have oa: "orch_args example_marshalled = [7, 4096, 8192, 12288, 0, 0, 0, 0, 0, 0, 0, 0, 0, 0, 0, 0]"
    by (simp add: example_marshalled_def)
  have tr: "trace example_copied_host
       = [DeviceMalloc 16 4096, CopyToDevice 4096 256 16 0, DeviceMalloc 32 8192,
          DeviceMalloc 64 12288, CopyToDevice 12288 768 64 0]"
    by (simp add: example_copied_host_def)
  have dev: "device example_copied_host = (3, [(4096, 256, 16), (12288, 768, 64)])"
    by (simp add: example_copied_host_def)
  have allocs_val: "expected_allocs (Some [0, 1, 2, 3]) (orch_args example_marshalled) (nat 4)
       = [\<lparr>alloc_dev_ptr = 4096\<rparr>, \<lparr>alloc_dev_ptr = 8192\<rparr>, \<lparr>alloc_dev_ptr = 12288\<rparr>]"
    unfolding allocs [symmetric] by (simp add: example_marshalled_def)
  have pairs_val: "expected_pairs [7, 256, 512, 768] (Some [0, 1, 2, 3]) (Some [0, 16, 32, 64])
           (orch_args example_marshalled) (nat 4)
       = [\<lparr>host_ptr = 512, dev_ptr = 8192, size_bytes = 32\<rparr>,
          \<lparr>host_ptr = 768, dev_ptr = 12288, size_bytes = 64\<rparr>]"
    unfolding pairs [symmetric] by (simp add: example_marshalled_def)
  from example_copying oa tr run dev allocs allocs_val pairs pairs_val show ?thesis
    by (intro conjI)
qed

lemma freed_append: "freed (xs @ ys) = freed xs @ freed ys"
  by (induction xs rule: freed.induct) simp_all

lemma allocated_append: "allocated (xs @ ys) = allocated xs @ allocated ys"
  by (induction xs rule: allocated.induct) simp_all

lemma copy_back_freed:
  "freed (trace (snd (copy_back api pairs (rc, h)))) = freed (trace h)"
  by (induction pairs arbitrary: rc h)
     (simp_all add: call_copy_from_device_def freed_append split: prod.splits)

lemma free_device_allocs_freed:
  "freed (trace (free_device_allocs api allocs h)) =
     freed (trace h) @ filter (\<lambda>p. p \<noteq> nullptr) (map alloc_dev_ptr allocs)"
  by (induction allocs arbitrary: h) (simp_all add: call_device_free_def freed_append)

lemma is_recorded_alloc_iff:
  "is_recorded_alloc allocs p \<longleftrightarrow> p \<noteq> nullptr \<and> p \<in> set (map alloc_dev_ptr allocs)"
  by (auto simp: is_recorded_alloc_def list_ex_iff)

lemma free_tensor_pairs_freed:
  "freed (trace (free_tensor_pairs api allocs pairs h)) =
     freed (trace h) @ filter (\<lambda>p. p \<noteq> nullptr \<and> p \<notin> set (map alloc_dev_ptr allocs))
                        (map dev_ptr pairs)"
  by (induction pairs arbitrary: h)
     (simp_all add: call_device_free_def freed_append is_recorded_alloc_iff)

lemma validate_runtime_impl_freed:
  assumes "validate_runtime_impl api (Some rt) h = (rc, rt', h')"
  shows "freed (trace h') =
           freed (trace h) @ filter (\<lambda>p. p \<noteq> nullptr) (map alloc_dev_ptr (device_allocs rt))
           @ filter (\<lambda>p. p \<noteq> nullptr \<and> p \<notin> set (map alloc_dev_ptr (device_allocs rt)))
               (map dev_ptr (tensor_pairs rt))"
proof -
  obtain rc1 h1 where cb: "copy_back api (tensor_pairs rt) (0, h) = (rc1, h1)"
    by (cases "copy_back api (tensor_pairs rt) (0, h)")
  have h1: "freed (trace h1) = freed (trace h)"
    using copy_back_freed [of api "tensor_pairs rt" 0 h] by (simp add: cb)
  have "h' = free_tensor_pairs api (device_allocs rt) (tensor_pairs rt)
               (free_device_allocs api (device_allocs rt) h1)"
    using assms by (simp add: validate_runtime_impl_def cb Let_def)
  then show ?thesis
    by (simp add: free_tensor_pairs_freed free_device_allocs_freed h1)
qed

text \<open>
  C6, as amended. \<open>validate_runtime_impl\<close> calls \<open>device_free\<close> once for each recorded
  device allocation with a non-null pointer, in order, and then once for each tensor pair
  whose device pointer is non-null and is not among the recorded allocations; both
  collections are empty when it returns. Its calls are made through the host API table,
  each on the device state that the previous one left, so that replaying them from the
  initial device state ends in the device state it leaves. No pointer is freed twice provided the non-null
  pointers of the allocation records are pairwise distinct and so are those of the
  tensor pairs that are freed: the function guards against a pointer that is in both
  collections, not against one that is twice in the same collection.
\<close>

theorem validate_runtime_impl_frees:
  assumes "validate_runtime_impl api (Some rt) h = (rc, rt', h')"
  shows "freed (trace h') =
           freed (trace h) @ filter (\<lambda>p. p \<noteq> nullptr) (map alloc_dev_ptr (device_allocs rt))
           @ filter (\<lambda>p. p \<noteq> nullptr \<and> p \<notin> set (map alloc_dev_ptr (device_allocs rt)))
               (map dev_ptr (tensor_pairs rt))
         \<and> (\<exists>r. rt' = Some r \<and> tensor_pairs r = [] \<and> device_allocs r = [])
         \<and> (\<exists>evs. trace h' = trace h @ evs \<and> host_run api (device h) evs = Some (device h'))
         \<and> (distinct (filter (\<lambda>p. p \<noteq> nullptr) (map alloc_dev_ptr (device_allocs rt)))
              \<and> distinct (filter (\<lambda>p. p \<noteq> nullptr \<and> p \<notin> set (map alloc_dev_ptr (device_allocs rt)))
                    (map dev_ptr (tensor_pairs rt)))
            \<longrightarrow> distinct (filter (\<lambda>p. p \<noteq> nullptr) (map alloc_dev_ptr (device_allocs rt))
                  @ filter (\<lambda>p. p \<noteq> nullptr \<and> p \<notin> set (map alloc_dev_ptr (device_allocs rt)))
                      (map dev_ptr (tensor_pairs rt))))"
proof (intro conjI)
  show "freed (trace h') =
           freed (trace h) @ filter (\<lambda>p. p \<noteq> nullptr) (map alloc_dev_ptr (device_allocs rt))
           @ filter (\<lambda>p. p \<noteq> nullptr \<and> p \<notin> set (map alloc_dev_ptr (device_allocs rt)))
               (map dev_ptr (tensor_pairs rt))"
    using assms by (rule validate_runtime_impl_freed)
  show "\<exists>r. rt' = Some r \<and> tensor_pairs r = [] \<and> device_allocs r = []"
    using assms
    by (auto simp: validate_runtime_impl_def Let_def clear_device_allocs_def clear_tensor_pairs_def
        split: prod.splits)
  show "\<exists>evs. trace h' = trace h @ evs \<and> host_run api (device h) evs = Some (device h')"
    using validate_runtime_impl_faithful [OF assms] by (simp add: faithful_iff)
  show "distinct (filter (\<lambda>p. p \<noteq> nullptr) (map alloc_dev_ptr (device_allocs rt)))
          \<and> distinct (filter (\<lambda>p. p \<noteq> nullptr \<and> p \<notin> set (map alloc_dev_ptr (device_allocs rt)))
                (map dev_ptr (tensor_pairs rt)))
        \<longrightarrow> distinct (filter (\<lambda>p. p \<noteq> nullptr) (map alloc_dev_ptr (device_allocs rt))
              @ filter (\<lambda>p. p \<noteq> nullptr \<and> p \<notin> set (map alloc_dev_ptr (device_allocs rt)))
                  (map dev_ptr (tensor_pairs rt)))"
    by auto
qed

theorem validate_runtime_impl_double_free:
  "freed (trace (snd (snd (validate_runtime_impl example_api
      (Some ((fresh_runtime [])\<lparr>tensor_pairs :=
         [\<lparr>host_ptr = 256, dev_ptr = 4096, size_bytes = 16\<rparr>,
          \<lparr>host_ptr = 512, dev_ptr = 4096, size_bytes = 16\<rparr>]\<rparr>))
      \<lparr>device = 0, trace = []\<rparr>)))) = [4096, 4096]"
  by (simp add: validate_runtime_impl_def fresh_runtime_def example_api_def Let_def
      call_copy_from_device_def call_device_free_def is_recorded_alloc_def nullptr_def)

theorem validate_runtime_impl_frees_witness:
  "freed (trace (snd (snd (validate_runtime_impl example_api
      (Some ((fresh_runtime [])\<lparr>tensor_pairs :=
         [\<lparr>host_ptr = 256, dev_ptr = 8192, size_bytes = 16\<rparr>,
          \<lparr>host_ptr = 512, dev_ptr = 12288, size_bytes = 16\<rparr>],
         device_allocs := [\<lparr>alloc_dev_ptr = 4096\<rparr>, \<lparr>alloc_dev_ptr = 8192\<rparr>]\<rparr>))
      \<lparr>device = 0, trace = []\<rparr>)))) = [4096, 8192, 12288]
   \<and> distinct [4096, 8192, 12288 :: u64]"
proof -
  let ?rt = "(fresh_runtime [])\<lparr>tensor_pairs :=
         [\<lparr>host_ptr = 256, dev_ptr = 8192, size_bytes = 16\<rparr>,
          \<lparr>host_ptr = 512, dev_ptr = 12288, size_bytes = 16\<rparr>],
         device_allocs := [\<lparr>alloc_dev_ptr = 4096\<rparr>, \<lparr>alloc_dev_ptr = 8192\<rparr>]\<rparr>"
  let ?h = "\<lparr>device = 0 :: nat, trace = []\<rparr>"
  let ?v = "validate_runtime_impl example_api (Some ?rt) ?h"
  have "?v = (fst ?v, fst (snd ?v), snd (snd ?v))"
    by simp
  from validate_runtime_impl_frees [OF this] show ?thesis
    by (simp add: fresh_runtime_def nullptr_def)
qed

lemma allocated_expected:
  assumes "\<forall>i < k. arg_type ats i \<noteq> ARG_SCALAR \<longrightarrow> oa ! i \<noteq> nullptr"
  shows "allocated (concat (map (expected_events fa ats ass oa) [0..<k]))
         = map alloc_dev_ptr (expected_allocs ats oa k)"
  using assms
  by (induction k) (simp_all add: allocated_append expected_allocs_def expected_events_def)

lemma freed_expected:
  "freed (concat (map (expected_events fa ats ass oa) [0..<k])) = []"
  by (induction k) (simp_all add: freed_append expected_events_def)

lemma allocated_nonnull: "nullptr \<notin> set (allocated evs)"
  by (induction evs rule: allocated.induct) simp_all

lemma expected_pairs_recorded:
  "set (map dev_ptr (expected_pairs fa ats ass oa k))
     \<subseteq> set (map alloc_dev_ptr (expected_allocs ats oa k))"
  by (auto simp: expected_pairs_def expected_allocs_def ARG_SCALAR_def ARG_OUTPUT_PTR_def
      ARG_INOUT_PTR_def)

text \<open>
  C9. When \<open>init_runtime_impl\<close> fails in the marshalling of argument \<open>i\<close>
  (\<open>device_malloc\<close> returned null, or \<open>copy_to_device\<close> a nonzero status), it returns -1
  and \<open>orch_argc\<close> keeps its old value; the tensor pairs and the device allocation
  records made for the arguments before \<open>i\<close> are still recorded; nothing was freed, and
  every successful allocation of the call is among the recorded device allocations (the
  calls are those made through the host API table, each on the device state that the
  previous one left). The
  cleanup is left to \<open>validate_runtime_impl\<close>, which on this state frees exactly the
  recorded allocations.
\<close>

theorem init_runtime_impl_partial_failure:
  assumes "init_runtime_impl lim api env (Some rt) orch_so_binary orch_so_size orch_func_name
             func_args func_args_count arg_types arg_sizes h = (Some e, Some rt', h')"
    and "e = MallocFailed i \<or> e = CopyFailed i"
    and "length (orch_args rt) = nat (RUNTIME_MAX_ORCH_ARGS lim)"
  shows "return_code (Some e) = -1
         \<and> i < nat func_args_count \<and> arg_type arg_types i \<noteq> ARG_SCALAR
         \<and> orch_argc rt' = orch_argc rt
         \<and> tensor_pairs rt' = expected_pairs func_args arg_types arg_sizes (orch_args rt') i
         \<and> take (length (expected_allocs arg_types (orch_args rt') i)) (device_allocs rt')
             = expected_allocs arg_types (orch_args rt') i
         \<and> (\<exists>evs. trace h' = trace h @ evs \<and> freed evs = []
                \<and> map alloc_dev_ptr (device_allocs rt') = allocated evs
                \<and> host_run api (device h) evs = Some (device h'))
         \<and> freed (trace (snd (snd (validate_runtime_impl api (Some rt') h'))))
             = freed (trace h') @ map alloc_dev_ptr (device_allocs rt')"
proof -
  let ?rt0 = "clear_device_allocs (clear_tensor_pairs rt)"
  from assms(2) have ne: "Some e \<noteq> Some InvalidOrchestration" "Some e \<noteq> Some TooManyArgs"
    by auto
  from init_runtime_impl_loop [OF assms(1) ne] obtain r rt1 where
    cap: "func_args_count \<le> RUNTIME_MAX_ORCH_ARGS lim"
    and loop: "marshal_loop api func_args arg_types arg_sizes [0..<nat func_args_count] (?rt0, h)
                 = (r, rt1, h')"
    and ok: "r = None \<longrightarrow> (Some e = None \<or> Some e = Some OrchSoTooLarge)"
    and fail: "r \<noteq> None \<longrightarrow> Some e = r \<and> Some rt' = Some rt1"
    by metis
  have r: "r = Some e" and rt1: "rt1 = rt'"
    using ok fail assms(2) by auto
  from marshal_loop_fails [OF loop [unfolded r]] obtain k rtk hk where
    k: "k < nat func_args_count"
    and pre: "marshal_loop api func_args arg_types arg_sizes [0..<k] (?rt0, h) = (None, rtk, hk)"
    and step: "marshal_arg api func_args arg_types arg_sizes k (rtk, hk) = (Some e, rt1, h')"
    by blast
  from marshal_arg_fails [OF step] obtain evs where
    ptr: "arg_type arg_types k \<noteq> ARG_SCALAR"
    and e: "e = MallocFailed k \<or> e = CopyFailed k"
    and oa: "orch_args rt1 = orch_args rtk"
    and argc: "orch_argc rt1 = orch_argc rtk"
    and tp: "tensor_pairs rt1 = tensor_pairs rtk"
    and tr: "trace h' = trace hk @ evs"
    and fr: "freed evs = []"
    and da: "device_allocs rt1 = device_allocs rtk @ map (\<lambda>p. \<lparr>alloc_dev_ptr = p\<rparr>) (allocated evs)"
    by blast
  have ki: "k = i"
    using e assms(2) by auto
  have "k \<le> length (orch_args ?rt0)"
    using k cap assms(3) by (simp add: clear_device_allocs_def clear_tensor_pairs_def)
  from marshal_loop_marshalled [OF pre this]
  have inv: "marshalled func_args arg_types arg_sizes k ?rt0 h rtk hk" .
  let ?oa = "orch_args rtk"
  let ?evs0 = "concat (map (expected_events func_args arg_types arg_sizes ?oa) [0..<k])"
  have inv_argc: "orch_argc rtk = orch_argc rt"
    and inv_da: "device_allocs rtk = expected_allocs arg_types ?oa k"
    and inv_tp: "tensor_pairs rtk = expected_pairs func_args arg_types arg_sizes ?oa k"
    and inv_tr: "trace hk = trace h @ ?evs0"
    and inv_nn: "\<forall>j < k. arg_type arg_types j \<noteq> ARG_SCALAR \<longrightarrow> ?oa ! j \<noteq> nullptr"
    using inv by (simp_all add: marshalled_def clear_device_allocs_def clear_tensor_pairs_def)
  have ptrs: "map alloc_dev_ptr (device_allocs rt1) = allocated (?evs0 @ evs)"
    using allocated_expected [OF inv_nn, of func_args arg_sizes]
    by (simp add: da inv_da allocated_append comp_def)
  have nonnull: "filter (\<lambda>p. p \<noteq> nullptr) (map alloc_dev_ptr (device_allocs rt1))
                 = map alloc_dev_ptr (device_allocs rt1)"
    unfolding ptrs using allocated_nonnull [of "?evs0 @ evs"] by (intro filter_True) auto
  have "set (map dev_ptr (tensor_pairs rt1)) \<subseteq> set (map alloc_dev_ptr (device_allocs rt1))"
    using expected_pairs_recorded [of func_args arg_types arg_sizes ?oa k]
    by (auto simp: tp inv_tp da inv_da)
  then have recorded: "filter (\<lambda>p. p \<noteq> nullptr \<and> p \<notin> set (map alloc_dev_ptr (device_allocs rt1)))
                         (map dev_ptr (tensor_pairs rt1)) = []"
    by (auto simp: filter_empty_conv)
  have "validate_runtime_impl api (Some rt1) h' =
          (fst (validate_runtime_impl api (Some rt1) h'),
           fst (snd (validate_runtime_impl api (Some rt1) h')),
           snd (snd (validate_runtime_impl api (Some rt1) h')))"
    by simp
  from validate_runtime_impl_freed [OF this]
  have deferred: "freed (trace (snd (snd (validate_runtime_impl api (Some rt1) h'))))
                    = freed (trace h') @ map alloc_dev_ptr (device_allocs rt1)"
    by (simp only: nonnull recorded append_Nil2)
  have tr': "trace h' = trace h @ (?evs0 @ evs)"
    by (simp add: tr inv_tr)
  have run: "host_run api (device h) (?evs0 @ evs) = Some (device h')"
    using marshal_loop_faithful [OF loop] tr' by (rule faithful_trace)
  have events: "\<exists>evs'. trace h' = trace h @ evs' \<and> freed evs' = []
                  \<and> map alloc_dev_ptr (device_allocs rt1) = allocated evs'
                  \<and> host_run api (device h) evs' = Some (device h')"
    using ptrs tr' run
    by (intro exI [of _ "?evs0 @ evs"]) (simp add: freed_append freed_expected fr)
  show ?thesis
    using k ptr deferred events
    by (simp add: ki [symmetric] rt1 [symmetric] argc inv_argc tp inv_tp oa da inv_da)
qed


lemma example_partial_failure:
  "init_runtime_impl example_limits exhausted_api None (Some (fresh_runtime [])) (Some [1, 2]) 2
     (Some ''orchestration'') [7, 256, 512, 768] 4 (Some [0, 1, 2, 3]) (Some [0, 16, 32, 64])
     \<lparr>device = 0, trace = []\<rparr>
   = (Some (MallocFailed 3), Some example_failed, example_failed_host)"
  by (simp add: example_failed_def example_failed_host_def init_runtime_impl_def example_limits_def example_api_def exhausted_api_def
      fresh_runtime_def clear_device_allocs_def clear_tensor_pairs_def upt_rec marshal_arg_def
      arg_type_def arg_size_def ARG_SCALAR_def ARG_INPUT_PTR_def ARG_OUTPUT_PTR_def
      ARG_INOUT_PTR_def call_device_malloc_def call_copy_to_device_def record_device_alloc_def
      record_tensor_pair_def nullptr_def Let_def)

theorem init_runtime_impl_partial_failure_witness:
  "init_runtime_impl example_limits exhausted_api None (Some (fresh_runtime [])) (Some [1, 2]) 2
     (Some ''orchestration'') [7, 256, 512, 768] 4 (Some [0, 1, 2, 3]) (Some [0, 16, 32, 64])
     \<lparr>device = 0, trace = []\<rparr>
   = (Some (MallocFailed 3), Some example_failed, example_failed_host)
   \<and> return_code (Some (MallocFailed 3)) = -1
   \<and> orch_argc example_failed = orch_argc (fresh_runtime [])
   \<and> tensor_pairs example_failed = [\<lparr>host_ptr = 512, dev_ptr = 8192, size_bytes = 32\<rparr>]
   \<and> map alloc_dev_ptr (device_allocs example_failed) = [4096, 8192]
   \<and> freed (trace example_failed_host) = []
   \<and> freed (trace (snd (snd (validate_runtime_impl exhausted_api (Some example_failed)
                               example_failed_host))))
       = freed (trace example_failed_host) @ map alloc_dev_ptr (device_allocs example_failed)"
proof -
  have len: "length (orch_args (fresh_runtime [])) = nat (RUNTIME_MAX_ORCH_ARGS example_limits)"
    by (simp add: fresh_runtime_def example_limits_def)
  have which: "MallocFailed 3 = MallocFailed 3 \<or> MallocFailed 3 = CopyFailed 3"
    by simp
  from init_runtime_impl_partial_failure [OF example_partial_failure which len]
  have rc: "return_code (Some (MallocFailed 3)) = -1"
    and argc: "orch_argc example_failed = orch_argc (fresh_runtime [])"
    and deferred: "freed (trace (snd (snd (validate_runtime_impl exhausted_api (Some example_failed)
                               example_failed_host))))
       = freed (trace example_failed_host) @ map alloc_dev_ptr (device_allocs example_failed)"
    by blast+
  have pairs: "tensor_pairs example_failed = [\<lparr>host_ptr = 512, dev_ptr = 8192, size_bytes = 32\<rparr>]"
    and allocs: "map alloc_dev_ptr (device_allocs example_failed) = [4096, 8192]"
    by (simp_all add: example_failed_def)
  have nofree: "freed (trace example_failed_host) = []"
    by (simp add: example_failed_host_def)
  from example_partial_failure rc argc pairs allocs nofree deferred show ?thesis
    by (intro conjI)
qed

section \<open>Results: the orchestration delegate\<close>






section \<open>Results: CoreFunctionBinCache\<close>

text \<open>
  C10. \<open>GetKernel\<close> returns \<open>nullptr\<close> without loading from the offset table when
  \<open>index \<ge> numKernels\<close>, and every offset-table index it loads from is strictly below
  \<open>numKernels\<close>.
\<close>

theorem GetKernel_bounds:
  "(numKernels c \<le> index \<longrightarrow> GetKernel mem this c index = (nullptr, []))
   \<and> (\<forall>i \<in> set (snd (GetKernel mem this c index)). i < numKernels c)"
  by (auto simp: GetKernel_def Let_def not_le)

theorem GetKernel_bounds_witness:
  "GetKernel (\<lambda>a. 7) 4096 \<lparr>dataSize = 64, numKernels = 2\<rparr> 2 = (nullptr, [])
   \<and> GetKernel (\<lambda>a. 7) 4096 \<lparr>dataSize = 64, numKernels = 2\<rparr> 1 = (4135, [1])
   \<and> (1 :: u64) < 2"
proof -
  let ?c = "\<lparr>dataSize = 64, numKernels = 2\<rparr>"
  have out: "GetKernel (\<lambda>a. 7) 4096 ?c 2 = (nullptr, [])"
    using GetKernel_bounds [of ?c 2 "\<lambda>a. 7" 4096] by simp
  have "\<not> (2 :: u64) \<le> 1"
    by (simp add: not_le)
  then have inside: "GetKernel (\<lambda>a. 7) 4096 ?c 1 = (4135, [1])"
    by (simp add: GetKernel_def GetOffsets_def GetBinaryData_def
        sizeof_CoreFunctionBinCache_def sizeof_uint64_t_def)
  have "\<forall>i \<in> set (snd (GetKernel (\<lambda>a. 7) 4096 ?c 1)). i < numKernels ?c"
    using GetKernel_bounds [of ?c 1 "\<lambda>a. 7" 4096] by (rule conjunct2)
  with inside have "(1 :: u64) < 2"
    by simp
  with out inside show ?thesis
    by (intro conjI)
qed

end
